theory Spec2Isabelle
  imports Main "HOL-Library.Word"
begin

section \<open>Strings and numbers of the validator\<close>

text \<open>
  A JavaScript string is a sequence of 16-bit code units, and \<open>length\<close>, \<open>split\<close>,
  \<open>substring\<close> and the regular expressions of \<open>script.js\<close> (none has the \<open>u\<close> flag) all
  work on code units. A string is therefore a list of 16-bit words; \<open>js\<close> turns an ASCII
  literal into such a list.
\<close>

type_synonym jschar = "16 word"
type_synonym jsstring = "jschar list"

definition js :: "string \<Rightarrow> jsstring" where
  "js = map of_char"

text \<open>\<open>\d\<close> and \<open>[0-9]\<close>: the code units U+0030 .. U+0039.\<close>

definition is_digit :: "jschar \<Rightarrow> bool" where
  "is_digit c = (48 \<le> c \<and> c \<le> 57)"

definition digit_val :: "jschar \<Rightarrow> nat" where
  "digit_val c = unat c - 48"

definition digit_only :: "jsstring \<Rightarrow> bool" where
  "digit_only s = list_all is_digit s"

text \<open>
  White space as \<open>String.prototype.trim\<close>, \<open>parseInt\<close> and \<open>Number\<close> strip it: the
  WhiteSpace code points (TAB, VT, FF, SP, NBSP, ZWNBSP and the category Zs) and the
  LineTerminator code points (LF, CR, LS, PS).
\<close>

definition is_line_terminator :: "jschar \<Rightarrow> bool" where
  "is_line_terminator c = (c = 0x000A \<or> c = 0x000D \<or> c = 0x2028 \<or> c = 0x2029)"

definition is_white_space :: "jschar \<Rightarrow> bool" where
  "is_white_space c =
     (c = 0x0009 \<or> c = 0x000B \<or> c = 0x000C \<or> c = 0x0020 \<or> c = 0x00A0 \<or> c = 0xFEFF \<or>
      c = 0x1680 \<or> (0x2000 \<le> c \<and> c \<le> 0x200A) \<or> c = 0x202F \<or> c = 0x205F \<or> c = 0x3000 \<or>
      is_line_terminator c)"

definition trim :: "jsstring \<Rightarrow> jsstring" where
  "trim s = rev (dropWhile is_white_space (rev (dropWhile is_white_space s)))"

text \<open>\<open>s.split(sep)\<close> for a one-character separator; the result is never empty.\<close>

fun split_on :: "jschar \<Rightarrow> jsstring \<Rightarrow> jsstring list" where
  "split_on sep [] = [[]]"
| "split_on sep (c # cs) =
     (if c = sep then [] # split_on sep cs
      else (case split_on sep cs of
              p # ps \<Rightarrow> (c # p) # ps
            | [] \<Rightarrow> [[c]]))"

text \<open>
  The numbers of \<open>luhnCheck\<close> are small non-negative integers or \<open>NaN\<close>; \<open>None\<close> is
  \<open>NaN\<close>. \<open>Number(c)\<close> of a one-character string is the digit's value, \<open>0\<close> for a
  white-space character (the string trims to the empty string) and \<open>NaN\<close> otherwise.
\<close>

type_synonym jsnum = "nat option"

definition Number1 :: "jschar \<Rightarrow> jsnum" where
  "Number1 c = (if is_digit c then Some (digit_val c)
                else if is_white_space c then Some 0
                else None)"

definition num_add :: "jsnum \<Rightarrow> jsnum \<Rightarrow> jsnum" where
  "num_add a b = (case (a, b) of (Some x, Some y) \<Rightarrow> Some (x + y) | _ \<Rightarrow> None)"

definition num_double :: "jsnum \<Rightarrow> jsnum" where
  "num_double a = map_option (\<lambda>x. 2 * x) a"

text \<open>\<open>digit > 9\<close> is false for \<open>NaN\<close>.\<close>

definition num_gt9 :: "jsnum \<Rightarrow> bool" where
  "num_gt9 a = (case a of Some x \<Rightarrow> 9 < x | None \<Rightarrow> False)"

definition num_sub9 :: "jsnum \<Rightarrow> jsnum" where
  "num_sub9 a = map_option (\<lambda>x. x - 9) a"

text \<open>\<open>sum % 10 === 0\<close> is false for \<open>NaN\<close>.\<close>

definition num_mod10_is_0 :: "jsnum \<Rightarrow> bool" where
  "num_mod10_is_0 a = (case a of Some x \<Rightarrow> x mod 10 = 0 | None \<Rightarrow> False)"

section \<open>The checks of \<open>CCValidator\<close>\<close>

subsection \<open>\<open>cleanCardNumber\<close> and \<open>validateLength\<close>\<close>

definition cleanCardNumber :: "jsstring \<Rightarrow> jsstring" where
  "cleanCardNumber cardNumber = filter is_digit cardNumber"

definition validateLength :: "jsstring \<Rightarrow> bool" where
  "validateLength cardNumber = (12 \<le> length cardNumber \<and> length cardNumber \<le> 19)"

subsection \<open>\<open>luhnCheck\<close>\<close>

text \<open>
  The loop \<open>for (let i = length - 1; i >= 0; i--)\<close>: the counter of \<open>luhn_loop\<close> is
  \<open>i + 1\<close>, so the body reads \<open>digits[i]\<close> with \<open>i < length\<close>;
  \<open>sm\<close> is the variable \<open>sum\<close>.
\<close>

fun luhn_loop :: "jsnum list \<Rightarrow> nat \<Rightarrow> jsnum \<Rightarrow> bool \<Rightarrow> jsnum" where
  "luhn_loop digits 0 sm isSecond = sm"
| "luhn_loop digits (Suc i) sm isSecond =
     (let digit = digits ! i;
          digit = (if isSecond
                   then (let doubled = num_double digit
                         in if num_gt9 doubled then num_sub9 doubled else doubled)
                   else digit)
      in luhn_loop digits i (num_add sm digit) (\<not> isSecond))"

definition luhnCheck :: "jsstring \<Rightarrow> bool" where
  "luhnCheck cardNumber =
     (let digits = map Number1 cardNumber;
          len = length digits
      in if len < 12 \<or> 19 < len then False
         else num_mod10_is_0 (luhn_loop digits len (Some 0) False))"

text \<open>
  The checksum as the specification words it: scanning right to left, the digit at
  position \<open>k\<close> from the right (the rightmost is position 0) is doubled when \<open>k\<close> is odd,
  and 9 is subtracted from a doubled digit that exceeds 9.
\<close>

definition luhn_weight :: "nat \<Rightarrow> nat \<Rightarrow> nat" where
  "luhn_weight k d = (if odd k then (if 9 < 2 * d then 2 * d - 9 else 2 * d) else d)"

definition luhn_weighted_sum :: "nat list \<Rightarrow> nat" where
  "luhn_weighted_sum ds = sum_list (map (\<lambda>k. luhn_weight k (rev ds ! k)) [0..<length ds])"

subsection \<open>Regular expressions\<close>

text \<open>
  The detection patterns are anchored regular expressions (\<open>^ ... $\<close>, no flags) over
  literal characters, character ranges, sequence, alternation and bounded repetition.
  \<open>rx_match r s\<close> lists what is left of \<open>s\<close> after each way of matching \<open>r\<close> at its
  start, so \<open>pattern.test(s)\<close> holds when some way leaves nothing.
\<close>

datatype rx = Chr jschar | Rng jschar jschar | Cat rx rx | Alt rx rx | Eps

fun rx_match :: "rx \<Rightarrow> jsstring \<Rightarrow> jsstring list" where
  "rx_match (Chr a) s = (case s of c # cs \<Rightarrow> if c = a then [cs] else [] | [] \<Rightarrow> [])"
| "rx_match (Rng lo hi) s =
     (case s of c # cs \<Rightarrow> if lo \<le> c \<and> c \<le> hi then [cs] else [] | [] \<Rightarrow> [])"
| "rx_match (Cat r1 r2) s = concat (map (rx_match r2) (rx_match r1 s))"
| "rx_match (Alt r1 r2) s = rx_match r1 s @ rx_match r2 s"
| "rx_match Eps s = [s]"

definition rx_test :: "rx \<Rightarrow> jsstring \<Rightarrow> bool" where
  "rx_test r s = ([] \<in> set (rx_match r s))"

text \<open>A literal such as \<open>2131\<close>, a sequence, an alternation \<open>a|b|c\<close>, and the
  quantifiers \<open>r{n}\<close>, \<open>r?\<close> and \<open>r{n,m}\<close>.\<close>

definition lit :: "string \<Rightarrow> rx" where
  "lit cs = foldr (\<lambda>c r. Cat (Chr (of_char c)) r) cs Eps"

definition rng :: "char \<Rightarrow> char \<Rightarrow> rx" where
  "rng a b = Rng (of_char a) (of_char b)"

definition dig :: rx where
  "dig = rng CHR ''0'' CHR ''9''"

definition rx_seq :: "rx list \<Rightarrow> rx" where
  "rx_seq rs = foldr Cat rs Eps"

fun rx_alts :: "rx list \<Rightarrow> rx" where
  "rx_alts [] = Eps"
| "rx_alts [r] = r"
| "rx_alts (r # rs) = Alt r (rx_alts rs)"

primrec rx_times :: "nat \<Rightarrow> rx \<Rightarrow> rx" where
  "rx_times 0 r = Eps"
| "rx_times (Suc n) r = Cat r (rx_times n r)"

definition rx_opt :: "rx \<Rightarrow> rx" where
  "rx_opt r = Alt r Eps"

primrec rx_upto :: "nat \<Rightarrow> rx \<Rightarrow> rx" where
  "rx_upto 0 r = Eps"
| "rx_upto (Suc n) r = rx_opt (Cat r (rx_upto n r))"

definition rx_between :: "nat \<Rightarrow> nat \<Rightarrow> rx \<Rightarrow> rx" where
  "rx_between n m r = Cat (rx_times n r) (rx_upto (m - n) r)"

subsection \<open>The card patterns and \<open>detectCardType\<close>\<close>

record card_pattern =
  pattern :: rx
  binRanges :: "(int \<times> int) list"
  lengths :: "nat list"
  cvvLength :: "nat list"
  name :: string

text \<open>The entries of \<open>this.cardPatterns\<close>, and the table in the order of its keys.\<close>

definition visa :: card_pattern where
  "visa =
     \<lparr>pattern = rx_seq [lit ''4'', rx_times 12 dig, rx_opt (rx_times 3 dig)],
      binRanges = [(4, 4)], lengths = [13, 16, 19], cvvLength = [3], name = ''Visa''\<rparr>"

definition mastercard :: card_pattern where
  "mastercard =
     \<lparr>pattern = rx_alts
        [rx_seq [lit ''5'', rng CHR ''1'' CHR ''5'', rx_times 14 dig],
         rx_seq [lit ''2'',
                 rx_alts [rx_seq [lit ''2'', rng CHR ''2'' CHR ''9'', dig],
                          rx_seq [rng CHR ''3'' CHR ''6'', rx_times 2 dig],
                          rx_seq [lit ''7'', rx_alts [lit ''0'', lit ''1''], dig],
                          lit ''720''],
                 rx_times 12 dig]],
      binRanges = [(51, 55), (2221, 2720)], lengths = [16], cvvLength = [3],
      name = ''Mastercard''\<rparr>"

definition amex :: card_pattern where
  "amex =
     \<lparr>pattern = rx_seq [lit ''3'', rx_alts [lit ''4'', lit ''7''], rx_times 13 dig],
      binRanges = [(34, 34), (37, 37)], lengths = [15], cvvLength = [4],
      name = ''American Express''\<rparr>"

definition discover :: card_pattern where
  "discover =
     \<lparr>pattern = rx_seq [lit ''6'',
                        rx_alts [lit ''011'',
                                 rx_seq [lit ''4'', rng CHR ''4'' CHR ''9'', dig],
                                 rx_seq [lit ''5'', rx_times 2 dig]],
                        rx_times 12 dig],
      binRanges = [(6011, 6011), (644, 649), (65, 65)], lengths = [16, 17, 18, 19],
      cvvLength = [3], name = ''Discover''\<rparr>"

definition diners :: card_pattern where
  "diners =
     \<lparr>pattern = rx_seq [lit ''3'',
                        rx_alts [rx_seq [lit ''0'', rng CHR ''0'' CHR ''5''],
                                 rx_seq [rx_alts [lit ''6'', lit ''8''], dig]],
                        rx_between 11 13 dig],
      binRanges = [(300, 305), (36, 36), (38, 39)], lengths = [14, 15, 16],
      cvvLength = [3], name = ''Diners Club''\<rparr>"

definition jcb :: card_pattern where
  "jcb =
     \<lparr>pattern = rx_seq [rx_alts [lit ''2131'', lit ''1800'',
                                 rx_seq [lit ''35'', rx_times 3 dig]],
                        rx_between 11 13 dig],
      binRanges = [(3528, 3589), (2131, 2131), (1800, 1800)],
      lengths = [15, 16, 17, 18, 19], cvvLength = [3], name = ''JCB''\<rparr>"

definition unionpay :: card_pattern where
  "unionpay =
     \<lparr>pattern = rx_seq [lit ''62'', rx_between 14 17 dig],
      binRanges = [(62, 62)], lengths = [16, 17, 18, 19], cvvLength = [3],
      name = ''UnionPay''\<rparr>"

definition maestro :: card_pattern where
  "maestro =
     \<lparr>pattern = rx_seq [rx_alts [lit ''5018'', lit ''5020'', lit ''5038'', lit ''5893'',
                                 lit ''6304'', lit ''6759'',
                                 rx_seq [lit ''676'', rng CHR ''1'' CHR ''3'']],
                        rx_between 8 15 dig],
      binRanges = [(5018, 5018), (5020, 5020), (5038, 5038), (6304, 6304), (6759, 6759)],
      lengths = [12, 13, 14, 15, 16, 17, 18, 19], cvvLength = [3],
      name = ''Maestro''\<rparr>"

definition cardPatterns :: "(string \<times> card_pattern) list" where
  "cardPatterns =
     [(''visa'', visa), (''mastercard'', mastercard), (''amex'', amex),
      (''discover'', discover), (''diners'', diners), (''jcb'', jcb),
      (''unionpay'', unionpay), (''maestro'', maestro)]"

text \<open>
  The object \<open>detectCardType\<close> returns: \<open>{ type, ...info }\<close> for a match, and
  \<open>{ type: "unknown", name: "Unknown", cvvLength: [3] }\<close>, which has no \<open>pattern\<close>,
  \<open>binRanges\<close> or \<open>lengths\<close> property, otherwise. \<open>None\<close> is an absent property.
\<close>

record card_info =
  info_type :: string
  info_name :: string
  info_pattern :: "rx option"
  info_binRanges :: "(int \<times> int) list option"
  info_lengths :: "nat list option"
  info_cvvLength :: "nat list option"

fun detect_loop :: "(string \<times> card_pattern) list \<Rightarrow> jsstring \<Rightarrow> card_info" where
  "detect_loop [] cardNumber =
     \<lparr>info_type = ''unknown'', info_name = ''Unknown'', info_pattern = None,
      info_binRanges = None, info_lengths = None, info_cvvLength = Some [3]\<rparr>"
| "detect_loop ((ty, info) # rest) cardNumber =
     (if rx_test (pattern info) cardNumber
      then \<lparr>info_type = ty, info_name = name info, info_pattern = Some (pattern info),
            info_binRanges = Some (binRanges info), info_lengths = Some (lengths info),
            info_cvvLength = Some (cvvLength info)\<rparr>
      else detect_loop rest cardNumber)"

definition detectCardType :: "jsstring \<Rightarrow> card_info" where
  "detectCardType cardNumber = detect_loop cardPatterns cardNumber"

subsection \<open>\<open>parseInt\<close> and \<open>validateBIN\<close>\<close>

text \<open>
  An integer-valued Number is the integer it denotes. \<open>to_double n\<close> is the Number value
  of a non-negative integer \<open>n\<close>: \<open>n\<close> itself below \<open>2^53\<close>, and otherwise \<open>n\<close> rounded to
  53 significant bits, to nearest and ties to even. (A result of \<open>2^1024\<close> or more stands
  for \<open>Infinity\<close>.)
\<close>

function double_exponent :: "int \<Rightarrow> nat" where
  "double_exponent n = (if n < 2 ^ 53 then 0 else Suc (double_exponent (n div 2)))"
  by pat_completeness auto
termination
  by (relation "measure nat") auto

declare double_exponent.simps [simp del]

definition to_double :: "int \<Rightarrow> int" where
  "to_double n =
     (let e = double_exponent n;
          q = n div 2 ^ e;
          r = n mod 2 ^ e
      in if 2 * r < 2 ^ e then q * 2 ^ e
         else if 2 ^ e < 2 * r then (q + 1) * 2 ^ e
         else if even q then q * 2 ^ e
         else (q + 1) * 2 ^ e)"

text \<open>
  \<open>parseInt(string, 10)\<close>: leading white space is skipped, one sign is read, and the
  longest run of decimal digits is the value, as a Number; \<open>None\<close> is \<open>NaN\<close> (no digit).
  (Beyond 20 significant digits the standard lets an implementation replace the later
  digits by zeros; the model rounds the exact value.)
\<close>

definition dec_value :: "jsstring \<Rightarrow> int" where
  "dec_value ds = foldl (\<lambda>acc c. 10 * acc + int (digit_val c)) 0 ds"

definition parseInt :: "jsstring \<Rightarrow> int option" where
  "parseInt string =
     (let S = dropWhile is_white_space string;
          sign = (case S of c # cs \<Rightarrow> if c = of_char CHR ''-'' then - 1 else 1 | [] \<Rightarrow> 1);
          S = (case S of
                 c # cs \<Rightarrow> if c = of_char CHR ''+'' \<or> c = of_char CHR ''-'' then cs else S
               | [] \<Rightarrow> S);
          Z = takeWhile is_digit S
      in if Z = [] then None else Some (sign * to_double (dec_value Z)))"

text \<open>
  \<open>String(start).length\<close> for an integer-valued Number \<open>start\<close>. Below \<open>10^21\<close> the string
  is the decimal numeral, as long as the number has decimal digits. From \<open>10^21\<close> on it
  is in exponent notation, \<open>d.ddde+NN\<close>, with the fewest digits \<open>k\<close> for which some
  \<open>s * 10^m\<close> of \<open>k\<close> digits has the Number value \<open>start\<close>: \<open>1e+21\<close> has 5 characters. A
  negative number has one more character for its sign; \<open>Infinity\<close> has 8.
\<close>

function decimal_width :: "int \<Rightarrow> nat" where
  "decimal_width n = (if n < 10 then 1 else Suc (decimal_width (n div 10)))"
  by pat_completeness auto
termination
  by (relation "measure nat") auto

declare decimal_width.simps [simp del]

definition round_trips :: "int \<Rightarrow> nat \<Rightarrow> int \<Rightarrow> bool" where
  "round_trips x m s = (to_double (s * 10 ^ m) = x)"

definition exponent_form_length :: "int \<Rightarrow> nat" where
  "exponent_form_length x =
     (let w = decimal_width x;
          lead = x div 10 ^ (w - 1)
      in if round_trips x (w - 1) lead then 3 + decimal_width (int (w - 1))
         else if round_trips x (w - 1) (lead + 1)
           then 3 + decimal_width (int (if lead = 9 then w else w - 1))
         else (case find (\<lambda>k. round_trips x (w - k) (x div 10 ^ (w - k)) \<or>
                              round_trips x (w - k) (x div 10 ^ (w - k) + 1)) [2..<18] of
                 Some k \<Rightarrow> k + 3 + decimal_width (int (w - 1))
               | None \<Rightarrow> 20 + decimal_width (int (w - 1))))"

definition unsigned_string_length :: "int \<Rightarrow> nat" where
  "unsigned_string_length x =
     (if x < 10 ^ 21 then decimal_width x
      else if x < 2 ^ 1024 then exponent_form_length x
      else 8)"

definition string_length_of :: "int \<Rightarrow> nat" where
  "string_length_of n =
     (if n < 0 then Suc (unsigned_string_length (- n)) else unsigned_string_length n)"

text \<open>The loop over \<open>cardInfo.binRanges\<close>; a comparison with \<open>NaN\<close> is false.\<close>

fun bin_loop :: "(int \<times> int) list \<Rightarrow> jsstring \<Rightarrow> bool" where
  "bin_loop [] cardNumber = False"
| "bin_loop ((start, end') # rest) cardNumber =
     (let prefixLength = string_length_of start;
          prefix = parseInt (take prefixLength cardNumber)
      in if (case prefix of Some p \<Rightarrow> start \<le> p \<and> p \<le> end' | None \<Rightarrow> False)
         then True
         else bin_loop rest cardNumber)"

definition validateBIN :: "jsstring \<Rightarrow> card_info \<Rightarrow> bool" where
  "validateBIN cardNumber cardInfo =
     (case info_binRanges cardInfo of
        None \<Rightarrow> True
      | Some ranges \<Rightarrow> bin_loop ranges cardNumber)"

subsection \<open>\<open>validateExpiration\<close>\<close>

text \<open>
  What \<open>validateExpiration\<close> reads from \<open>new Date()\<close>: \<open>getFullYear()\<close> and
  \<open>getMonth()\<close> (0 for January). The clock is a parameter of the model.
\<close>

record js_date =
  getFullYear :: int
  getMonth :: int

datatype exp_result = ExpInvalid string | ExpValid int int

definition validateExpiration :: "js_date \<Rightarrow> jsstring \<Rightarrow> jsstring \<Rightarrow> exp_result" where
  "validateExpiration now month_s year_s =
     (if month_s = [] \<or> year_s = [] then ExpInvalid ''Missing date components''
      else case parseInt month_s of
        None \<Rightarrow> ExpInvalid ''Invalid month''
      | Some monthNum \<Rightarrow>
          if monthNum < 1 \<or> 12 < monthNum then ExpInvalid ''Invalid month''
          else case parseInt year_s of
            None \<Rightarrow> ExpInvalid ''Invalid year format''
          | Some parsedYear \<Rightarrow>
              if length year_s \<noteq> 2 \<and> length year_s \<noteq> 4
              then ExpInvalid ''Year must be 2 or 4 digits''
              else
                let fullYear = (if length year_s = 2 then 2000 + parsedYear else parsedYear);
                    currentYear = getFullYear now;
                    currentMonth = getMonth now + 1
                in if fullYear < currentYear then ExpInvalid ''Card expired''
                   else if fullYear = currentYear \<and> monthNum < currentMonth
                     then ExpInvalid ''Card expired''
                   else if currentYear + 10 < fullYear
                     then ExpInvalid ''Expiration too far in future''
                   else ExpValid monthNum fullYear)"

subsection \<open>\<open>validateCVV\<close> and \<open>validateStructure\<close>\<close>

text \<open>\<open>/^\d+$/.test(cvv)\<close>: a non-empty string of digits.\<close>

definition validateCVV :: "jsstring \<Rightarrow> card_info \<Rightarrow> bool" where
  "validateCVV cvv_s cardInfo =
     (if cvv_s = [] then False
      else let validLengths = (case info_cvvLength cardInfo of Some ls \<Rightarrow> ls | None \<Rightarrow> [3])
           in length cvv_s \<in> set validLengths \<and> cvv_s \<noteq> [] \<and> digit_only cvv_s)"

text \<open>
  \<open>/^(.)\1+$/\<close>: one character, not a line terminator, followed by one or more copies of
  itself. \<open>/^(.{2})\1{6,}$/\<close>: two such characters followed by six or more copies of the
  pair; \<open>block_copies a b s\<close> counts the copies when \<open>s\<close> consists of copies only.
\<close>

definition repeated_single :: "jsstring \<Rightarrow> bool" where
  "repeated_single s =
     (case s of
        c # rest \<Rightarrow> \<not> is_line_terminator c \<and> rest \<noteq> [] \<and> list_all (\<lambda>x. x = c) rest
      | [] \<Rightarrow> False)"

fun block_copies :: "jschar \<Rightarrow> jschar \<Rightarrow> jsstring \<Rightarrow> nat option" where
  "block_copies a b [] = Some 0"
| "block_copies a b [x] = None"
| "block_copies a b (x # y # rest) =
     (if x = a \<and> y = b then map_option Suc (block_copies a b rest) else None)"

definition repeated_pair :: "jsstring \<Rightarrow> bool" where
  "repeated_pair s =
     (case s of
        a # b # rest \<Rightarrow>
          \<not> is_line_terminator a \<and> \<not> is_line_terminator b \<and>
          (case block_copies a b rest of Some k \<Rightarrow> 6 \<le> k | None \<Rightarrow> False)
      | _ \<Rightarrow> False)"

definition validateStructure :: "jsstring \<Rightarrow> bool" where
  "validateStructure cardNumber =
     (if repeated_single cardNumber then False
      else if repeated_pair cardNumber then False
      else True)"

subsection \<open>\<open>extractCardData\<close> and \<open>validateCard\<close>\<close>

record card_data =
  number :: jsstring
  month :: jsstring
  year :: jsstring
  cvv :: jsstring

text \<open>\<open>parts[k] || ""\<close>: the empty string for a missing (or empty) part.\<close>

definition part_or_empty :: "jsstring list \<Rightarrow> nat \<Rightarrow> jsstring" where
  "part_or_empty parts k = (if k < length parts then parts ! k else [])"

definition extractCardData :: "jsstring \<Rightarrow> card_data" where
  "extractCardData cardData =
     (let parts = map trim (split_on (of_char CHR ''|'') cardData)
      in \<lparr>number = part_or_empty parts 0, month = part_or_empty parts 1,
          year = part_or_empty parts 2, cvv = part_or_empty parts 3\<rparr>)"

text \<open>The object \<open>validateCard\<close> returns; \<open>None\<close> is a property the object does not have.\<close>

record verdict =
  valid :: bool
  card_type :: "string option"
  cardName :: "string option"
  reason :: "string option"
  expMonth :: "int option"
  expYear :: "int option"

definition rejected :: "string option \<Rightarrow> string option \<Rightarrow> string \<Rightarrow> verdict" where
  "rejected ty nm why =
     \<lparr>valid = False, card_type = ty, cardName = nm, reason = Some why,
      expMonth = None, expYear = None\<rparr>"

definition validateCard :: "js_date \<Rightarrow> jsstring \<Rightarrow> verdict" where
  "validateCard now cardData =
     (let d = extractCardData cardData
      in if number d = [] then rejected None None ''Missing card number''
         else
           let cleanedNumber = cleanCardNumber (number d)
           in if \<not> validateLength cleanedNumber
              then rejected (Some ''unknown'') None ''Invalid card length''
              else
                let cardInfo = detectCardType cleanedNumber;
                    ty = Some (info_type cardInfo);
                    nm = Some (info_name cardInfo)
                in if \<not> validateStructure cleanedNumber
                     then rejected ty nm ''Invalid card structure''
                   else if \<not> luhnCheck cleanedNumber
                     then rejected ty nm ''Failed Luhn check''
                   else if info_type cardInfo \<noteq> ''unknown'' \<and> \<not> validateBIN cleanedNumber cardInfo
                     then rejected ty nm ''Invalid BIN/IIN''
                   else case validateExpiration now (month d) (year d) of
                     ExpInvalid why \<Rightarrow> rejected ty nm why
                   | ExpValid m y \<Rightarrow>
                       if \<not> validateCVV (cvv d) cardInfo
                       then rejected ty nm ''Invalid CVV''
                       else \<lparr>valid = True, card_type = ty, cardName = nm, reason = None,
                             expMonth = Some m, expYear = Some y\<rparr>)"


subsection \<open>\<open>simulateStatus\<close> and \<open>processBatch\<close>\<close>

text \<open>
  \<open>this.currentBatch\<close>; the field \<open>valid_cards\<close> is the property \<open>valid\<close> of the object
  (the name \<open>valid\<close> is the verdict's here).
\<close>

record batch =
  total :: nat
  processed :: nat
  valid_cards :: nat
  live :: nat
  dead :: nat

text \<open>The mutable fields of a \<open>CCValidator\<close>; \<open>None\<close> is \<open>null\<close>.\<close>

record validator =
  isProcessing :: bool
  currentBatch :: "batch option"

datatype status = INVALID | LIVE | DEAD

text \<open>
  What the code reads from outside while it handles one record: the clock, and whether
  \<open>Math.random()\<close> came out below \<open>0.2\<close>.
\<close>

record env =
  clock :: js_date
  random_below :: bool

definition simulateStatus :: "env \<Rightarrow> status" where
  "simulateStatus e = (if random_below e then LIVE else DEAD)"

text \<open>
  What an invocation of \<open>processBatch\<close> does to the outside, tagged with the number of
  the invocation: a call of its \<open>progressCallback\<close> with \<open>this.currentBatch\<close> as it is
  then, a call of its \<open>resultCallback\<close> (the \<open>progress\<close> percentage, a floating-point
  quotient, is left out), and the value its promise resolves to.
\<close>

datatype call =
    ProgressCallback nat "batch option"
  | ResultCallback nat jsstring verdict status
  | Return nat "batch option"

definition update_batch :: "(batch \<Rightarrow> batch) \<Rightarrow> validator \<Rightarrow> validator" where
  "update_batch f v = v\<lparr>currentBatch := map_option f (currentBatch v)\<rparr>"

definition count_valid :: "status \<Rightarrow> validator \<Rightarrow> validator" where
  "count_valid st v =
     (let v = update_batch (\<lambda>b. b\<lparr>valid_cards := Suc (valid_cards b)\<rparr>) v
      in if st = LIVE then update_batch (\<lambda>b. b\<lparr>live := Suc (live b)\<rparr>) v
         else update_batch (\<lambda>b. b\<lparr>dead := Suc (dead b)\<rparr>) v)"

definition count_processed :: "validator \<Rightarrow> validator" where
  "count_processed v = update_batch (\<lambda>b. b\<lparr>processed := Suc (processed b)\<rparr>) v"

text \<open>The end of \<open>processBatch\<close>: \<open>this.isProcessing = false; return this.currentBatch\<close>.\<close>

definition finish :: "nat \<Rightarrow> validator \<Rightarrow> nat option \<times> validator \<times> call list" where
  "finish k v = (None, v\<lparr>isProcessing := False\<rparr>, [Return k (currentBatch v)])"

text \<open>
  The \<open>for\<close> loop of invocation \<open>k\<close> from the test \<open>i < cardsData.length\<close> on, up to the
  next \<open>await\<close> or the \<open>return\<close>. A blank line is counted and the loop goes on at once
  (\<open>continue\<close>); any other line is validated, counted and reported, and the invocation
  is suspended: the result \<open>Some i\<close> says that it waits for its timer after record \<open>i\<close>,
  \<open>None\<close> that it has returned.
\<close>

function batch_loop ::
  "nat \<Rightarrow> env \<Rightarrow> jsstring list \<Rightarrow> nat \<Rightarrow> validator \<Rightarrow> nat option \<times> validator \<times> call list"
where
  "batch_loop k e cardsData i v =
     (if i < length cardsData then
        if \<not> isProcessing v then finish k v
        else
          let cardData = trim (cardsData ! i)
          in if cardData = [] then batch_loop k e cardsData (Suc i) (count_processed v)
             else
               let validation = validateCard (clock e) cardData;
                   st = (if valid validation then simulateStatus e else INVALID);
                   v = (if valid validation then count_valid st v else v);
                   v = count_processed v
               in (Some i, v,
                   (if st = LIVE \<or> st = DEAD then [ResultCallback k cardData validation st]
                    else []) @
                   [ProgressCallback k (currentBatch v)])
      else finish k v)"
  by pat_completeness auto
termination
  by (relation "measure (\<lambda>(k, e, cardsData, i, v). length cardsData - i)") auto

declare batch_loop.simps [simp del]

text \<open>
  \<open>processBatch\<close> is an \<open>async\<close> function: between two records it waits for a timer, and
  in the meantime other code runs on the same validator. The system is the validator,
  the invocations of \<open>processBatch\<close> so far (each suspended after some record, or
  finished) and the calls made to the outside. An event is a call of \<open>processBatch\<close>,
  a call of \<open>stopProcessing\<close>, or the timer of a suspended invocation firing (any
  suspended invocation may be the next to resume).
\<close>

datatype task = Suspended "jsstring list" nat | Finished

record system =
  this :: validator
  tasks :: "task list"
  calls :: "call list"

datatype event =
    ProcessBatch "jsstring list" env
  | StopProcessing
  | TimerFires nat env

definition settle ::
  "nat \<Rightarrow> jsstring list \<Rightarrow> nat option \<times> validator \<times> call list \<Rightarrow> system \<Rightarrow> system" where
  "settle k cardsData r s =
     (case r of (next_i, v, cs) \<Rightarrow>
        s\<lparr>this := v,
          tasks := (tasks s)[k := (case next_i of Some i \<Rightarrow> Suspended cardsData i
                                   | None \<Rightarrow> Finished)],
          calls := calls s @ cs\<rparr>)"

definition new_batch :: "jsstring list \<Rightarrow> validator" where
  "new_batch cardsData =
     \<lparr>isProcessing = True,
      currentBatch = Some \<lparr>total = length cardsData, processed = 0, valid_cards = 0,
                           live = 0, dead = 0\<rparr>\<rparr>"

fun step :: "event \<Rightarrow> system \<Rightarrow> system" where
  "step (ProcessBatch cardsData e) s =
     (let k = length (tasks s)
      in if isProcessing (this s)
         then s\<lparr>tasks := tasks s @ [Finished], calls := calls s @ [Return k None]\<rparr>
         else settle k cardsData (batch_loop k e cardsData 0 (new_batch cardsData))
                (s\<lparr>tasks := tasks s @ [Finished]\<rparr>))"
| "step StopProcessing s = s\<lparr>this := (this s)\<lparr>isProcessing := False\<rparr>\<rparr>"
| "step (TimerFires k e) s =
     (if k < length (tasks s)
      then (case tasks s ! k of
              Suspended cardsData i \<Rightarrow>
                settle k cardsData (batch_loop k e cardsData (Suc i) (this s)) s
            | Finished \<Rightarrow> s)
      else s)"

definition run :: "event list \<Rightarrow> system \<Rightarrow> system" where
  "run es s = fold step es s"

text \<open>A validator as its constructor leaves it, with nothing started.\<close>

definition initial :: system where
  "initial = \<lparr>this = \<lparr>isProcessing = False, currentBatch = None\<rparr>, tasks = [], calls = []\<rparr>"

definition progress_calls :: "nat \<Rightarrow> call list \<Rightarrow> batch option list" where
  "progress_calls k cs =
     concat (map (\<lambda>c. case c of ProgressCallback j b \<Rightarrow> if j = k then [b] else []
                          | _ \<Rightarrow> []) cs)"

text \<open>
  An event of what was going on before invocation \<open>n\<close> was made: a call of
  \<open>stopProcessing\<close>, or the timer of an earlier invocation.
\<close>

definition earlier_event :: "nat \<Rightarrow> event \<Rightarrow> bool" where
  "earlier_event n ev =
     (case ev of
        ProcessBatch cardsData e \<Rightarrow> False
      | StopProcessing \<Rightarrow> True
      | TimerFires k e \<Rightarrow> k < n)"

section \<open>The specification's wording\<close>

text \<open>
  The seven checks of \<open>validateCard\<close> that can fail, in the order the specification
  lists them (type detection, its third step, cannot fail), the reason each reports, and
  when each fails in terms of the validator's own functions.
\<close>

datatype check =
    NumberPresent | LengthInRange | StructurePlausible | LuhnChecksum | BinRange
  | ExpirationDate | CvvLength

definition check_order :: "check list" where
  "check_order =
     [NumberPresent, LengthInRange, StructurePlausible, LuhnChecksum, BinRange,
      ExpirationDate, CvvLength]"

definition cleaned_number :: "jsstring \<Rightarrow> jsstring" where
  "cleaned_number line = cleanCardNumber (number (extractCardData line))"

definition exp_fails :: "exp_result \<Rightarrow> bool" where
  "exp_fails r = (case r of ExpInvalid why \<Rightarrow> True | ExpValid m y \<Rightarrow> False)"

fun check_fails :: "js_date \<Rightarrow> jsstring \<Rightarrow> check \<Rightarrow> bool" where
  "check_fails now line NumberPresent = (number (extractCardData line) = [])"
| "check_fails now line LengthInRange = (\<not> validateLength (cleaned_number line))"
| "check_fails now line StructurePlausible = (\<not> validateStructure (cleaned_number line))"
| "check_fails now line LuhnChecksum = (\<not> luhnCheck (cleaned_number line))"
| "check_fails now line BinRange =
     (info_type (detectCardType (cleaned_number line)) \<noteq> ''unknown'' \<and>
      \<not> validateBIN (cleaned_number line) (detectCardType (cleaned_number line)))"
| "check_fails now line ExpirationDate =
     exp_fails (validateExpiration now (month (extractCardData line))
                  (year (extractCardData line)))"
| "check_fails now line CvvLength =
     (\<not> validateCVV (cvv (extractCardData line)) (detectCardType (cleaned_number line)))"

fun check_reason :: "js_date \<Rightarrow> jsstring \<Rightarrow> check \<Rightarrow> string" where
  "check_reason now line NumberPresent = ''Missing card number''"
| "check_reason now line LengthInRange = ''Invalid card length''"
| "check_reason now line StructurePlausible = ''Invalid card structure''"
| "check_reason now line LuhnChecksum = ''Failed Luhn check''"
| "check_reason now line BinRange = ''Invalid BIN/IIN''"
| "check_reason now line ExpirationDate =
     (case validateExpiration now (month (extractCardData line))
             (year (extractCardData line)) of
        ExpInvalid why \<Rightarrow> why
      | ExpValid m y \<Rightarrow> [])"
| "check_reason now line CvvLength = ''Invalid CVV''"

text \<open>Every rejection reason that occurs in \<open>validateCard\<close> and \<open>validateExpiration\<close>.\<close>

definition rejection_reasons :: "string list" where
  "rejection_reasons =
     [''Missing card number'', ''Invalid card length'', ''Invalid card structure'',
      ''Failed Luhn check'', ''Invalid BIN/IIN'', ''Missing date components'',
      ''Invalid month'', ''Invalid year format'', ''Year must be 2 or 4 digits'',
      ''Card expired'', ''Expiration too far in future'', ''Invalid CVV'']"

text \<open>
  The structural validator as the specification words it: the whole string is one digit
  repeated (length 1 or more), or the whole string is one block of two characters
  repeated 7 or more times.
\<close>

definition one_digit_repeated :: "jsstring \<Rightarrow> bool" where
  "one_digit_repeated s = (1 \<le> length s \<and> s = replicate (length s) (hd s))"

definition two_char_block_repeated :: "jsstring \<Rightarrow> bool" where
  "two_char_block_repeated s =
     (7 \<le> length s div 2 \<and> s = concat (replicate (length s div 2) (take 2 s)))"

definition structure_rejected_as_specified :: "jsstring \<Rightarrow> bool" where
  "structure_rejected_as_specified s = (one_digit_repeated s \<or> two_char_block_repeated s)"

text \<open>
  The BIN check as the specification words it: the number has a prefix as long as \<open>low\<close>
  has decimal digits, and the value of that prefix lies between \<open>low\<close> and \<open>high\<close>.
\<close>

definition bin_pair_matches :: "jsstring \<Rightarrow> int \<times> int \<Rightarrow> bool" where
  "bin_pair_matches cardNumber r =
     (case r of (low, high) \<Rightarrow>
        decimal_width low \<le> length cardNumber \<and>
        low \<le> dec_value (take (decimal_width low) cardNumber) \<and>
        dec_value (take (decimal_width low) cardNumber) \<le> high)"

text \<open>
  The BIN check as the claim words it: a profile that declares no ranges passes, and
  otherwise some declared pair must match.
\<close>

definition declares_no_ranges :: "card_info \<Rightarrow> bool" where
  "declares_no_ranges cardInfo =
     (case info_binRanges cardInfo of None \<Rightarrow> True | Some ranges \<Rightarrow> ranges = [])"

definition bin_passes_as_specified :: "jsstring \<Rightarrow> card_info \<Rightarrow> bool" where
  "bin_passes_as_specified cardNumber cardInfo =
     (declares_no_ranges cardInfo \<or>
      (case info_binRanges cardInfo of
         None \<Rightarrow> False
       | Some ranges \<Rightarrow> list_ex (bin_pair_matches cardNumber) ranges))"

text \<open>
  Bounds that are non-negative integers below \<open>2^53\<close>: every such integer is a Number,
  its string is its decimal numeral, and comparing a Number with it is exact.
\<close>

definition safe_bounds :: "int \<times> int \<Rightarrow> bool" where
  "safe_bounds r = (case r of (low, high) \<Rightarrow> 0 \<le> low \<and> low < 2 ^ 53 \<and> high < 2 ^ 53)"

text \<open>
  When each check fails in the specification's words, on the fields of the line and on
  the normalized number (the digits of the number field): the number field is empty;
  the normalized number has fewer than 12 or more than 19 digits; it is one digit
  repeated or one block of two repeated 7 times or more; its weighted digit sum is not
  divisible by 10; the network is known and no declared pair matches its prefix; the
  expiration validator fails; the CVV is empty, has a length that is not among the
  profile's, or has a character that is not a digit.
\<close>

definition normalized_number :: "jsstring \<Rightarrow> jsstring" where
  "normalized_number line = filter is_digit (number (extractCardData line))"

definition bin_rejected_as_specified :: "jsstring \<Rightarrow> card_info \<Rightarrow> bool" where
  "bin_rejected_as_specified cardNumber cardInfo =
     (info_type cardInfo \<noteq> ''unknown'' \<and>
      (case info_binRanges cardInfo of
         None \<Rightarrow> False
       | Some ranges \<Rightarrow> \<not> list_ex (bin_pair_matches cardNumber) ranges))"

definition cvv_rejected_as_specified :: "jsstring \<Rightarrow> card_info \<Rightarrow> bool" where
  "cvv_rejected_as_specified cvv_s cardInfo =
     (cvv_s = [] \<or>
      length cvv_s \<notin> set (case info_cvvLength cardInfo of Some ls \<Rightarrow> ls | None \<Rightarrow> [3]) \<or>
      list_ex (\<lambda>c. \<not> is_digit c) cvv_s)"

fun check_fails_as_specified :: "js_date \<Rightarrow> jsstring \<Rightarrow> check \<Rightarrow> bool" where
  "check_fails_as_specified now line NumberPresent = (number (extractCardData line) = [])"
| "check_fails_as_specified now line LengthInRange =
     (length (normalized_number line) < 12 \<or> 19 < length (normalized_number line))"
| "check_fails_as_specified now line StructurePlausible =
     structure_rejected_as_specified (normalized_number line)"
| "check_fails_as_specified now line LuhnChecksum =
     (luhn_weighted_sum (map digit_val (normalized_number line)) mod 10 \<noteq> 0)"
| "check_fails_as_specified now line BinRange =
     bin_rejected_as_specified (normalized_number line)
       (detectCardType (normalized_number line))"
| "check_fails_as_specified now line ExpirationDate =
     exp_fails (validateExpiration now (month (extractCardData line))
                  (year (extractCardData line)))"
| "check_fails_as_specified now line CvvLength =
     cvv_rejected_as_specified (cvv (extractCardData line))
       (detectCardType (normalized_number line))"


text \<open>
  The counters of a batch as the specification relates them: live and dead add up to the
  valid ones, which are among the processed ones, which are among all.
\<close>

definition counters_consistent :: "batch \<Rightarrow> bool" where
  "counters_consistent b =
     (live b + dead b = valid_cards b \<and> valid_cards b \<le> processed b \<and>
      processed b \<le> total b)"

text \<open>
  A call to the outside that shows consistent counters: a progress callback or a return
  with a batch whose counters are consistent (a result callback shows no batch).
\<close>

definition consistent_call :: "call \<Rightarrow> bool" where
  "consistent_call c =
     (case c of
        ProgressCallback k b \<Rightarrow> (case b of Some b' \<Rightarrow> counters_consistent b' | None \<Rightarrow> False)
      | ResultCallback k cardData validation st \<Rightarrow> True
      | Return k b \<Rightarrow> (case b of Some b' \<Rightarrow> counters_consistent b' | None \<Rightarrow> False))"


text \<open>
  Invocation \<open>k\<close>, of \<open>processBatch(cardsData)\<close>, is the only one that may still be in
  flight: the earlier ones have returned, the counters are consistent, and when \<open>k\<close>
  waits after record \<open>i\<close> the batch is its own, with \<open>i + 1\<close> records processed.
\<close>

definition lone_invocation :: "nat \<Rightarrow> jsstring list \<Rightarrow> system \<Rightarrow> bool" where
  "lone_invocation k cardsData s =
     (length (tasks s) = Suc k \<and> list_all (\<lambda>t. t = Finished) (take k (tasks s)) \<and>
      (case currentBatch (this s) of
         None \<Rightarrow> False
       | Some b \<Rightarrow>
           counters_consistent b \<and> total b = length cardsData \<and>
           (case tasks s ! k of
              Suspended cd i \<Rightarrow> cd = cardsData \<and> i < length cardsData \<and> processed b = Suc i
            | Finished \<Rightarrow> True)))"

section \<open>Properties\<close>

subsection \<open>The Luhn checksum\<close>

lemma Number1_digit: "is_digit c \<Longrightarrow> Number1 c = Some (digit_val c)"
  by (simp add: Number1_def)

lemma map_Number1_digit_only:
  "digit_only s \<Longrightarrow> map Number1 s = map Some (map digit_val s)"
  by (induction s) (simp_all add: digit_only_def Number1_digit)

text \<open>
  The loop invariant: started at counter \<open>n\<close> with flag \<open>b\<close>, the loop adds the digit at
  index \<open>n - 1 - k\<close> with the weight of position \<open>k\<close> (shifted by one when \<open>b\<close> holds).
\<close>

lemma luhn_loop_sum:
  "n \<le> length ds \<Longrightarrow>
   luhn_loop (map Some ds) n (Some acc) b =
     Some (acc + (\<Sum>k<n. luhn_weight (if b then Suc k else k) (ds ! (n - 1 - k))))"
proof (induction n arbitrary: acc b)
  case 0
  then show ?case by simp
next
  case (Suc n)
  have step: "luhn_loop (map Some ds) (Suc n) (Some acc) b =
      luhn_loop (map Some ds) n (Some (acc + luhn_weight (if b then Suc 0 else 0) (ds ! n))) (\<not> b)"
    using Suc.prems
    by (simp add: Let_def num_double_def num_gt9_def num_sub9_def num_add_def luhn_weight_def)
  have ih: "luhn_loop (map Some ds) n (Some (acc + luhn_weight (if b then Suc 0 else 0) (ds ! n))) (\<not> b) =
      Some (acc + luhn_weight (if b then Suc 0 else 0) (ds ! n) +
            (\<Sum>k<n. luhn_weight (if \<not> b then Suc k else k) (ds ! (n - 1 - k))))"
    using Suc.prems by (intro Suc.IH) simp
  have shift: "(\<Sum>k<Suc n. luhn_weight (if b then Suc k else k) (ds ! (Suc n - 1 - k))) =
      luhn_weight (if b then Suc 0 else 0) (ds ! n) +
      (\<Sum>k<n. luhn_weight (if b then Suc (Suc k) else Suc k) (ds ! (n - 1 - k)))"
    by (subst sum.lessThan_Suc_shift) simp
  have par: "luhn_weight (if b then Suc (Suc k) else Suc k) d =
             luhn_weight (if \<not> b then Suc k else k) d" for k d
    by (simp add: luhn_weight_def)
  show ?case
    unfolding step ih shift by (simp add: par)
qed

lemma luhn_weighted_sum_alt:
  "luhn_weighted_sum ds = (\<Sum>k<length ds. luhn_weight k (ds ! (length ds - 1 - k)))"
proof -
  have "luhn_weighted_sum ds = (\<Sum>k<length ds. luhn_weight k (rev ds ! k))"
    by (simp add: luhn_weighted_sum_def interv_sum_list_conv_sum_set_nat atLeast0LessThan)
  also have "\<dots> = (\<Sum>k<length ds. luhn_weight k (ds ! (length ds - 1 - k)))"
    by (rule sum.cong) (simp_all add: rev_nth)
  finally show ?thesis .
qed

lemma luhnCheck_digits:
  assumes "digit_only s" and "12 \<le> length s" and "length s \<le> 19"
  shows "luhnCheck s = (luhn_weighted_sum (map digit_val s) mod 10 = 0)"
proof -
  have "luhn_loop (map Some (map digit_val s)) (length s) (Some 0) False =
        Some (luhn_weighted_sum (map digit_val s))"
    using luhn_loop_sum [of "length s" "map digit_val s" 0 False]
    by (simp add: luhn_weighted_sum_alt)
  then show ?thesis
    using assms by (simp add: luhnCheck_def map_Number1_digit_only num_mod10_is_0_def)
qed

lemma luhnCheck_bad_length: "length s < 12 \<or> 19 < length s \<Longrightarrow> luhnCheck s = False"
  by (auto simp add: luhnCheck_def)

lemma luhnCheck_example: "luhnCheck (js ''4539148803436467'') = True"
  by code_simp

text \<open>
  C2. For a digit-only string of length 12 to 19, \<open>luhnCheck\<close> is true exactly when the
  weighted digit sum (right to left, every second digit from the second-from-rightmost
  doubled, 9 subtracted from a doubled digit above 9) is divisible by 10; for a string
  shorter than 12 or longer than 19 it is false; \<open>luhnCheck("4539148803436467")\<close> is true.
\<close>

theorem luhnCheck_iff_weighted_sum:
  "(digit_only s \<and> 12 \<le> length s \<and> length s \<le> 19 \<longrightarrow>
      luhnCheck s = (luhn_weighted_sum (map digit_val s) mod 10 = 0))
   \<and> (length s < 12 \<or> 19 < length s \<longrightarrow> luhnCheck s = False)
   \<and> luhnCheck (js ''4539148803436467'') = True"
  using luhnCheck_digits [of s] luhnCheck_bad_length [of s] luhnCheck_example by auto

theorem luhnCheck_iff_weighted_sum_witness:
  "digit_only (js ''4539148803436467'') \<and> 12 \<le> length (js ''4539148803436467'')
   \<and> length (js ''4539148803436467'') \<le> 19
   \<and> luhn_weighted_sum (map digit_val (js ''4539148803436467'')) = 80
   \<and> luhnCheck (js ''4539148803436467'')
   \<and> length (js ''4539'') < 12 \<and> \<not> luhnCheck (js ''4539'')"
proof -
  have pre: "digit_only (js ''4539148803436467'') \<and> 12 \<le> length (js ''4539148803436467'')
      \<and> length (js ''4539148803436467'') \<le> 19"
    by code_simp
  have val: "luhn_weighted_sum (map digit_val (js ''4539148803436467'')) = 80"
    by code_simp
  have short: "length (js ''4539'') < 12"
    by (simp add: js_def)
  show ?thesis
    using pre val short
      luhnCheck_iff_weighted_sum [of "js ''4539148803436467''"]
      luhnCheck_iff_weighted_sum [of "js ''4539''"]
    by simp
qed

subsection \<open>The structural validator\<close>

lemma digit_not_line_terminator: "is_digit c \<Longrightarrow> \<not> is_line_terminator c"
  by (auto simp add: is_digit_def is_line_terminator_def)

lemma list_all_eq_replicate: "list_all (\<lambda>x. x = c) xs = (xs = replicate (length xs) c)"
  by (induction xs) auto

lemma repeated_single_iff:
  assumes "digit_only s"
  shows "repeated_single s = (2 \<le> length s \<and> s = replicate (length s) (hd s))"
proof (cases s)
  case Nil
  then show ?thesis by (simp add: repeated_single_def)
next
  case (Cons c rest)
  with assms have "\<not> is_line_terminator c"
    by (simp add: digit_only_def digit_not_line_terminator)
  with Cons show ?thesis
    by (cases rest) (auto simp add: repeated_single_def list_all_eq_replicate)
qed

lemma block_copies_iff:
  "(block_copies a b s = Some k) = (s = concat (replicate k [a, b]))"
proof (induction a b s arbitrary: k rule: block_copies.induct)
  case (1 a b)
  show ?case by (cases k) auto
next
  case (2 a b x)
  show ?case by (cases k) auto
next
  case (3 a b x y rest)
  show ?case
  proof (cases k)
    case 0
    then show ?thesis by auto
  next
    case (Suc j)
    with 3 show ?thesis by auto
  qed
qed

lemma repeated_pair_iff:
  assumes "digit_only s"
  shows "repeated_pair s = two_char_block_repeated s"
proof (cases s)
  case Nil
  then show ?thesis by (simp add: repeated_pair_def two_char_block_repeated_def)
next
  case (Cons a t)
  note s1 = Cons
  show ?thesis
  proof (cases t)
    case Nil
    with s1 show ?thesis by (simp add: repeated_pair_def two_char_block_repeated_def)
  next
    case (Cons b rest)
    with s1 have s: "s = a # b # rest" by simp
    from assms s have nl: "\<not> is_line_terminator a" "\<not> is_line_terminator b"
      by (simp_all add: digit_only_def digit_not_line_terminator)
    have lhs: "repeated_pair s = (\<exists>k\<ge>6. rest = concat (replicate k [a, b]))"
      using nl
      by (auto simp add: s repeated_pair_def block_copies_iff [symmetric] split: option.splits)
    have rhs: "two_char_block_repeated s = (\<exists>k\<ge>6. rest = concat (replicate k [a, b]))"
    proof
      assume "two_char_block_repeated s"
      then have n: "6 \<le> length rest div 2"
        and e: "a # b # rest = concat (replicate (Suc (length rest div 2)) [a, b])"
        by (simp_all add: s two_char_block_repeated_def)
      from e have "rest = concat (replicate (length rest div 2) [a, b])" by simp
      with n show "\<exists>k\<ge>6. rest = concat (replicate k [a, b])" by blast
    next
      assume "\<exists>k\<ge>6. rest = concat (replicate k [a, b])"
      then obtain k where k: "6 \<le> k" and r: "rest = concat (replicate k [a, b])" by blast
      have "length rest = 2 * k" by (simp add: r length_concat sum_list_replicate)
      then have "length rest div 2 = k" by simp
      with k r show "two_char_block_repeated s"
        by (simp add: s two_char_block_repeated_def)
    qed
    show ?thesis by (simp add: lhs rhs)
  qed
qed

lemma validateStructure_digits:
  "digit_only s \<Longrightarrow>
   (\<not> validateStructure s) =
     ((2 \<le> length s \<and> s = replicate (length s) (hd s)) \<or> two_char_block_repeated s)"
  by (simp add: validateStructure_def repeated_single_iff repeated_pair_iff)

lemma single_char_accepted: "validateStructure [c]"
  by (simp add: validateStructure_def repeated_single_def repeated_pair_def)

lemma all_ones_rejected: "\<not> validateStructure (js ''1111111111111111'')"
  by code_simp

lemma all_ones_line:
  "reason (validateCard now (js ''1111111111111111|12|2030|123'')) = Some ''Invalid card structure''"
  by code_simp

lemma all_ones_luhn: "\<not> luhnCheck (js ''1111111111111111'')"
  by code_simp

text \<open>
  C3, as stated, fails: the specification's wording rejects a string of one digit, and
  \<open>validateStructure\<close> accepts it, since \<open>/^(.)\1+$/\<close> needs the character and at least
  one copy of it.
\<close>

theorem validateStructure_single_char_counterexample:
  "digit_only (js ''7'') \<and> structure_rejected_as_specified (js ''7'') \<and> validateStructure (js ''7'')"
  by code_simp

text \<open>
  C3, amended. For a digit-only string, \<open>validateStructure\<close> rejects exactly when the
  whole string is one digit repeated with length 2 or more, or the whole string is one
  block of two characters repeated 7 or more times with nothing left over; every
  one-character string is accepted; \<open>1111111111111111\<close> is rejected (it fails the Luhn
  check as well), and validating \<open>1111111111111111|12|2030|123\<close> gives the reason
  "Invalid card structure" whatever the date.
\<close>

theorem validateStructure_rejects_repetition:
  "(digit_only s \<longrightarrow>
      (\<not> validateStructure s) =
        ((2 \<le> length s \<and> s = replicate (length s) (hd s)) \<or> two_char_block_repeated s))
   \<and> validateStructure [c]
   \<and> \<not> validateStructure (js ''1111111111111111'')
   \<and> \<not> luhnCheck (js ''1111111111111111'')
   \<and> reason (validateCard now (js ''1111111111111111|12|2030|123'')) =
       Some ''Invalid card structure''"
  using validateStructure_digits [of s] single_char_accepted [of c] all_ones_rejected
    all_ones_line [of now] all_ones_luhn
  by simp

theorem validateStructure_rejects_repetition_witness:
  "digit_only (js ''12121212121212'') \<and> two_char_block_repeated (js ''12121212121212'')
   \<and> \<not> validateStructure (js ''12121212121212'')
   \<and> digit_only (js ''121212121212'') \<and> validateStructure (js ''121212121212'')"
proof -
  have a: "digit_only (js ''12121212121212'') \<and> two_char_block_repeated (js ''12121212121212'')"
    by code_simp
  have b: "digit_only (js ''121212121212'') \<and> \<not> two_char_block_repeated (js ''121212121212'')
      \<and> js ''121212121212'' \<noteq> replicate (length (js ''121212121212'')) (hd (js ''121212121212''))"
    by code_simp
  show ?thesis
    using a b validateStructure_rejects_repetition [of "js ''12121212121212''"]
      validateStructure_rejects_repetition [of "js ''121212121212''"]
    by simp
qed

subsection \<open>The order of the checks\<close>

lemma validateCard_valid_iff:
  "valid (validateCard now line) = (find (check_fails now line) check_order = None)"
  by (simp add: validateCard_def Let_def rejected_def check_order_def cleaned_number_def
      exp_fails_def split: exp_result.splits)

lemma validateCard_reason:
  "reason (validateCard now line) =
     map_option (check_reason now line) (find (check_fails now line) check_order)"
  by (simp add: validateCard_def Let_def rejected_def check_order_def cleaned_number_def
      exp_fails_def split: exp_result.splits)

lemma month_13_line:
  "valid (validateCard now (js ''4111111111111111|13|2030|123'')) = False \<and>
   reason (validateCard now (js ''4111111111111111|13|2030|123'')) = Some ''Invalid month''"
  by code_simp

subsection \<open>The expiration date\<close>








subsection \<open>The BIN ranges\<close>

lemma digit_not_white_space: "is_digit c \<Longrightarrow> \<not> is_white_space c"
  by (auto simp add: is_digit_def is_white_space_def is_line_terminator_def word_le_nat_alt)

lemma digit_not_sign: "is_digit c \<Longrightarrow> c \<noteq> of_char CHR ''+'' \<and> c \<noteq> of_char CHR ''-''"
  by (auto simp add: is_digit_def)

lemma digit_val_le_9:
  assumes "is_digit c"
  shows "digit_val c \<le> 9"
proof -
  from assms have "unat c \<le> 57"
    by (simp add: is_digit_def word_le_nat_alt)
  then show ?thesis
    by (simp add: digit_val_def)
qed

text \<open>Below \<open>2^53\<close> a Number is the integer; from \<open>2^53\<close> on it stays at \<open>2^53\<close> or above.\<close>

lemma to_double_small: "n < 2 ^ 53 \<Longrightarrow> to_double n = n"
  by (simp add: to_double_def double_exponent.simps [of n])

lemma double_exponent_quotient:
  "2 ^ 52 \<le> n \<Longrightarrow> 2 ^ 52 \<le> n div 2 ^ double_exponent n"
proof (induction n rule: double_exponent.induct)
  case (1 n)
  show ?case
  proof (cases "n < 2 ^ 53")
    case True
    with 1(2) show ?thesis by (simp add: double_exponent.simps [of n])
  next
    case False
    then have h: "(2::int) ^ 52 \<le> n div 2" by simp
    have e: "double_exponent n = Suc (double_exponent (n div 2))"
      using False by (simp add: double_exponent.simps [of n])
    have "n div 2 ^ Suc (double_exponent (n div 2)) = n div 2 div 2 ^ double_exponent (n div 2)"
      by (simp add: zdiv_zmult2_eq)
    with 1(1) [OF False h] show ?thesis by (simp add: e)
  qed
qed

lemma to_double_large:
  assumes "2 ^ 53 \<le> n"
  shows "2 ^ 53 \<le> to_double n"
proof -
  let ?e = "double_exponent n"
  let ?q = "n div 2 ^ ?e"
  from assms have "(2::int) ^ 52 \<le> n" by simp
  then have q: "2 ^ 52 \<le> ?q" by (rule double_exponent_quotient)
  from assms obtain e' where e: "?e = Suc e'"
    by (cases ?e) (simp_all add: double_exponent.simps [of n])
  have "(2::int) * 1 \<le> 2 * 2 ^ e'" by (intro mult_left_mono) simp_all
  then have p: "(2::int) \<le> 2 ^ ?e" by (simp add: e)
  have "(2::int) ^ 53 = 2 ^ 52 * 2" by simp
  also have "\<dots> \<le> ?q * 2 ^ ?e"
    using q p by (intro mult_mono) simp_all
  finally have low: "2 ^ 53 \<le> ?q * 2 ^ ?e" .
  have "?q * 2 ^ ?e \<le> (?q + 1) * 2 ^ ?e"
    by (intro mult_right_mono) simp_all
  with low have up: "2 ^ 53 \<le> (?q + 1) * 2 ^ ?e"
    by linarith
  from low up show ?thesis
    by (simp add: to_double_def Let_def)
qed

lemma to_double_between:
  assumes "low < 2 ^ 53" and "high < 2 ^ 53"
  shows "(low \<le> to_double p \<and> to_double p \<le> high) = (low \<le> p \<and> p \<le> high)"
proof (cases "p < 2 ^ 53")
  case True
  then show ?thesis by (simp add: to_double_small)
next
  case False
  then have "2 ^ 53 \<le> to_double p" by (intro to_double_large) simp
  with False assms show ?thesis by simp
qed

lemma parseInt_empty: "parseInt [] = None"
  by (simp add: parseInt_def)

lemma parseInt_digits:
  assumes "digit_only ds" and "ds \<noteq> []"
  shows "parseInt ds = Some (to_double (dec_value ds))"
proof -
  from assms obtain c cs where ds: "ds = c # cs" and c: "is_digit c"
    by (cases ds) (auto simp add: digit_only_def)
  have "dropWhile is_white_space ds = ds"
    using c by (simp add: ds digit_not_white_space)
  moreover have "takeWhile is_digit ds = ds"
    using assms(1) by (simp add: digit_only_def takeWhile_eq_all_conv list_all_iff)
  ultimately show ?thesis
    using digit_not_sign [OF c] assms(2) by (simp add: parseInt_def Let_def ds)
qed

lemma dec_value_snoc: "dec_value (ds @ [c]) = 10 * dec_value ds + int (digit_val c)"
  by (simp add: dec_value_def)

lemma dec_value_less_power:
  "digit_only ds \<Longrightarrow> dec_value ds < 10 ^ length ds"
proof (induction ds rule: rev_induct)
  case Nil
  show ?case by (simp add: dec_value_def)
next
  case (snoc c ds)
  then have ih: "dec_value ds < 10 ^ length ds" and c: "is_digit c"
    by (simp_all add: digit_only_def)
  from ih have "dec_value ds + 1 \<le> 10 ^ length ds" by simp
  then have "10 * (dec_value ds + 1) \<le> 10 * 10 ^ length ds" by simp
  with digit_val_le_9 [OF c] show ?case
    by (simp add: dec_value_snoc)
qed

lemma decimal_width_pos: "1 \<le> decimal_width n"
  by (subst decimal_width.simps) simp

lemma decimal_width_power:
  "1 \<le> n \<Longrightarrow> 10 ^ (decimal_width n - 1) \<le> n"
proof (induction n rule: decimal_width.induct)
  case (1 n)
  show ?case
  proof (cases "n < 10")
    case True
    with 1 show ?thesis by (subst decimal_width.simps) simp
  next
    case False
    then have d: "1 \<le> n div 10" by simp
    have w: "decimal_width n = Suc (decimal_width (n div 10))"
      using False by (subst decimal_width.simps) simp
    from 1(1) [OF False d] have "10 * 10 ^ (decimal_width (n div 10) - 1) \<le> 10 * (n div 10)"
      by simp
    moreover have "10 * 10 ^ (decimal_width (n div 10) - 1) = (10::int) ^ decimal_width (n div 10)"
      using decimal_width_pos [of "n div 10"]
      by (cases "decimal_width (n div 10)") simp_all
    moreover have "10 * (n div 10) \<le> n" by simp
    ultimately show ?thesis by (simp add: w)
  qed
qed

text \<open>A digit string with fewer digits than \<open>low\<close> has a value below \<open>low\<close>.\<close>

lemma short_prefix_below:
  assumes "digit_only s" and "s \<noteq> []" and "length s < decimal_width low" and "0 \<le> low"
  shows "dec_value s < low"
proof -
  from assms(2,3) have w: "2 \<le> decimal_width low"
    by (cases s) auto
  then have "10 \<le> low"
    using assms(4) by (subst (asm) decimal_width.simps) (auto split: if_splits)
  then have "10 ^ (decimal_width low - 1) \<le> low"
    by (intro decimal_width_power) simp
  moreover have "(10::int) ^ length s \<le> 10 ^ (decimal_width low - 1)"
    using assms(3) by (intro power_increasing) auto
  ultimately show ?thesis
    using dec_value_less_power [OF assms(1)] by linarith
qed

lemma digit_only_take: "digit_only s \<Longrightarrow> digit_only (take n s)"
  by (auto simp add: digit_only_def list_all_iff dest: in_set_takeD)

lemma string_length_of_safe:
  assumes "0 \<le> low" and "low < 2 ^ 53"
  shows "string_length_of low = decimal_width low"
proof -
  have "(2::int) ^ 53 \<le> 10 ^ 21" by simp
  with assms(2) have "low < 10 ^ 21" by linarith
  with assms(1) show ?thesis
    by (simp add: string_length_of_def unsigned_string_length_def)
qed

lemma bin_pair_code:
  assumes "digit_only cardNumber" and "safe_bounds (low, high)"
  shows "(case parseInt (take (string_length_of low) cardNumber) of
            Some p \<Rightarrow> low \<le> p \<and> p \<le> high
          | None \<Rightarrow> False) = bin_pair_matches cardNumber (low, high)"
proof -
  from assms(2) have low: "0 \<le> low" "low < 2 ^ 53" and high: "high < 2 ^ 53"
    by (simp_all add: safe_bounds_def)
  have w: "string_length_of low = decimal_width low"
    using low by (rule string_length_of_safe)
  note btw = to_double_between [OF low(2) high]
  show ?thesis
  proof (cases "decimal_width low \<le> length cardNumber")
    case True
    then have "take (decimal_width low) cardNumber \<noteq> []"
      using decimal_width_pos [of low] by (cases cardNumber) auto
    then show ?thesis
      using True assms(1)
      by (simp add: w bin_pair_matches_def parseInt_digits digit_only_take btw)
  next
    case False
    then have t: "take (decimal_width low) cardNumber = cardNumber" by simp
    show ?thesis
    proof (cases "cardNumber = []")
      case True
      then show ?thesis using False by (simp add: w bin_pair_matches_def parseInt_empty)
    next
      case nonempty: False
      have "dec_value cardNumber < low"
        using assms(1) nonempty False low(1) by (intro short_prefix_below) auto
      then show ?thesis
        using False assms(1) nonempty
        by (simp add: w t bin_pair_matches_def parseInt_digits btw)
    qed
  qed
qed

lemma bin_loop_list_ex:
  "digit_only cardNumber \<Longrightarrow> list_all safe_bounds ranges \<Longrightarrow>
   bin_loop ranges cardNumber = list_ex (bin_pair_matches cardNumber) ranges"
proof (induction ranges)
  case Nil
  show ?case by simp
next
  case (Cons r ranges)
  obtain low high where r: "r = (low, high)" by (cases r)
  from Cons.prems have safe: "safe_bounds (low, high)" and rest: "list_all safe_bounds ranges"
    by (simp_all add: r)
  show ?case
    using bin_pair_code [OF Cons.prems(1) safe] Cons.IH [OF Cons.prems(1) rest]
    by (simp add: r Let_def)
qed

lemma validateBIN_no_ranges: "info_binRanges cardInfo = None \<Longrightarrow> validateBIN cardNumber cardInfo"
  by (simp add: validateBIN_def)

lemma validateBIN_empty_ranges:
  "info_binRanges cardInfo = Some [] \<Longrightarrow> \<not> validateBIN cardNumber cardInfo"
  by (simp add: validateBIN_def)

lemma validateBIN_ranges:
  "digit_only cardNumber \<Longrightarrow> info_binRanges cardInfo = Some ranges \<Longrightarrow>
   list_all safe_bounds ranges \<Longrightarrow>
   validateBIN cardNumber cardInfo = list_ex (bin_pair_matches cardNumber) ranges"
  by (simp add: validateBIN_def bin_loop_list_ex)

lemma decimal_width_examples: "decimal_width 51 = 2 \<and> decimal_width 2221 = 4"
  by code_simp

text \<open>
  C7, as stated, fails in two ways. A profile whose list of ranges is empty declares no
  ranges, and \<open>validateBIN\<close> rejects every number for it: the code tests whether the
  \<open>binRanges\<close> property is there, and an empty array is there. And \<open>parseInt\<close> gives a
  Number: for the pair \<open>(2^53, 2^53)\<close> the number \<open>9007199254740993\<close> passes, its prefix
  being read as \<open>2^53\<close>, although the integer value of the prefix is above the pair.
\<close>

theorem validateBIN_as_specified_counterexample:
  "bin_passes_as_specified (js ''4111111111111111'')
     \<lparr>info_type = ''card'', info_name = ''Card'', info_pattern = None,
      info_binRanges = Some [], info_lengths = None, info_cvvLength = Some [3]\<rparr>
   \<and> \<not> validateBIN (js ''4111111111111111'')
     \<lparr>info_type = ''card'', info_name = ''Card'', info_pattern = None,
      info_binRanges = Some [], info_lengths = None, info_cvvLength = Some [3]\<rparr>
   \<and> validateBIN (js ''9007199254740993'')
     \<lparr>info_type = ''card'', info_name = ''Card'', info_pattern = None,
      info_binRanges = Some [(9007199254740992, 9007199254740992)], info_lengths = None,
      info_cvvLength = Some [3]\<rparr>
   \<and> \<not> bin_passes_as_specified (js ''9007199254740993'')
     \<lparr>info_type = ''card'', info_name = ''Card'', info_pattern = None,
      info_binRanges = Some [(9007199254740992, 9007199254740992)], info_lengths = None,
      info_cvvLength = Some [3]\<rparr>"
  by code_simp

text \<open>
  C7, amended. A profile without a \<open>binRanges\<close> property (the unknown profile) passes
  \<open>validateBIN\<close> for every number, and a profile with an empty list of ranges passes for
  none. For a digit-only number and a profile whose declared bounds are non-negative
  integers below \<open>2^53\<close>, \<open>validateBIN\<close> passes exactly when for some declared pair
  \<open>(low, high)\<close> the number has a prefix as long as \<open>low\<close> has decimal digits and the
  integer value of that prefix lies between \<open>low\<close> and \<open>high\<close>: two digits for
  \<open>(51, 55)\<close>, four for \<open>(2221, 2720)\<close>.
\<close>

theorem validateBIN_prefix_in_range:
  "(info_binRanges cardInfo = None \<longrightarrow> validateBIN cardNumber cardInfo)
   \<and> (info_binRanges cardInfo = Some [] \<longrightarrow> \<not> validateBIN cardNumber cardInfo)
   \<and> (digit_only cardNumber \<and> info_binRanges cardInfo = Some ranges \<and>
       list_all safe_bounds ranges \<longrightarrow>
         validateBIN cardNumber cardInfo = list_ex (bin_pair_matches cardNumber) ranges)
   \<and> decimal_width 51 = 2 \<and> decimal_width 2221 = 4"
  using validateBIN_no_ranges [of cardInfo cardNumber]
    validateBIN_empty_ranges [of cardInfo cardNumber]
    validateBIN_ranges [of cardNumber cardInfo ranges] decimal_width_examples
  by blast

theorem validateBIN_prefix_in_range_witness:
  "info_binRanges (detectCardType (js ''1234567890123'')) = None
   \<and> validateBIN (js ''1234567890123'') (detectCardType (js ''1234567890123''))
   \<and> \<not> validateBIN (js ''4111111111111111'')
       \<lparr>info_type = ''card'', info_name = ''Card'', info_pattern = None,
        info_binRanges = Some [], info_lengths = None, info_cvvLength = Some [3]\<rparr>
   \<and> digit_only (js ''2720990000000000'')
   \<and> info_binRanges (detectCardType (js ''2720990000000000'')) = Some [(51, 55), (2221, 2720)]
   \<and> list_all safe_bounds [(51, 55), (2221, 2720)]
   \<and> bin_pair_matches (js ''2720990000000000'') (2221, 2720)
   \<and> validateBIN (js ''2720990000000000'') (detectCardType (js ''2720990000000000''))"
proof -
  let ?empty = "\<lparr>info_type = ''card'', info_name = ''Card'', info_pattern = None,
        info_binRanges = Some [], info_lengths = None, info_cvvLength = Some [3]\<rparr>"
  have a: "info_binRanges (detectCardType (js ''1234567890123'')) = None"
    by code_simp
  have b: "digit_only (js ''2720990000000000'')"
    by code_simp
  have c: "info_binRanges (detectCardType (js ''2720990000000000'')) = Some [(51, 55), (2221, 2720)]"
    by code_simp
  have d: "bin_pair_matches (js ''2720990000000000'') (2221, 2720)"
    by code_simp
  have e: "list_all safe_bounds [(51, 55), (2221, 2720)]"
    by (simp add: safe_bounds_def)
  have f: "info_binRanges ?empty = Some []"
    by simp
  show ?thesis
    using a b c d e f
      validateBIN_prefix_in_range [of "detectCardType (js ''1234567890123'')" "js ''1234567890123''"]
      validateBIN_prefix_in_range [of ?empty "js ''4111111111111111''"]
      validateBIN_prefix_in_range [of "detectCardType (js ''2720990000000000'')"
        "js ''2720990000000000''" "[(51, 55), (2221, 2720)]"]
    by simp
qed

subsection \<open>The checks as the specification words them\<close>

lemma cleaned_number_normalized: "cleaned_number line = normalized_number line"
  by (simp add: cleaned_number_def normalized_number_def cleanCardNumber_def)

lemma digit_only_normalized: "digit_only (normalized_number line)"
  by (simp add: normalized_number_def digit_only_def list_all_iff)

text \<open>The ranges of a detected profile are those of an entry of the table, all of them safe.\<close>

lemma detect_loop_ranges:
  "info_binRanges (detect_loop ps n) = Some ranges \<Longrightarrow> \<exists>p \<in> set ps. ranges = binRanges (snd p)"
  by (induction ps n rule: detect_loop.induct) (auto split: if_splits)

lemma cardPatterns_safe: "\<forall>p \<in> set cardPatterns. list_all safe_bounds (binRanges (snd p))"
  by (simp add: cardPatterns_def visa_def mastercard_def amex_def discover_def diners_def
      jcb_def unionpay_def maestro_def safe_bounds_def)

lemma detectCardType_safe:
  "info_binRanges (detectCardType n) = Some ranges \<Longrightarrow> list_all safe_bounds ranges"
  using detect_loop_ranges [of cardPatterns n ranges] cardPatterns_safe
  by (auto simp add: detectCardType_def)

lemma structure_check_as_specified:
  "digit_only n \<Longrightarrow> 12 \<le> length n \<Longrightarrow>
   (\<not> validateStructure n) = structure_rejected_as_specified n"
  by (auto simp add: validateStructure_digits structure_rejected_as_specified_def
      one_digit_repeated_def)

lemma luhn_check_as_specified:
  "digit_only n \<Longrightarrow> 12 \<le> length n \<Longrightarrow> length n \<le> 19 \<Longrightarrow>
   (\<not> luhnCheck n) = (luhn_weighted_sum (map digit_val n) mod 10 \<noteq> 0)"
  by (simp add: luhnCheck_digits)

lemma bin_check_as_specified:
  assumes "digit_only n"
  shows "(info_type (detectCardType n) \<noteq> ''unknown'' \<and> \<not> validateBIN n (detectCardType n)) =
         bin_rejected_as_specified n (detectCardType n)"
proof (cases "info_binRanges (detectCardType n)")
  case None
  then show ?thesis
    by (simp add: bin_rejected_as_specified_def validateBIN_no_ranges)
next
  case (Some ranges)
  with validateBIN_ranges [OF assms Some detectCardType_safe [OF Some]] show ?thesis
    by (simp add: bin_rejected_as_specified_def)
qed

lemma cvv_check_as_specified:
  "(\<not> validateCVV c cardInfo) = cvv_rejected_as_specified c cardInfo"
  by (auto simp add: validateCVV_def cvv_rejected_as_specified_def Let_def digit_only_def
      list_all_iff list_ex_iff)

lemma find_checks_as_specified:
  "find (check_fails_as_specified now line) check_order = find (check_fails now line) check_order"
proof (cases "number (extractCardData line) = [] \<or> \<not> validateLength (normalized_number line)")
  case True
  then show ?thesis
    by (auto simp add: check_order_def cleaned_number_normalized validateLength_def)
next
  case False
  then have len: "12 \<le> length (normalized_number line)" "length (normalized_number line) \<le> 19"
    by (simp_all add: validateLength_def)
  note d = digit_only_normalized [of line]
  show ?thesis
    using False len structure_check_as_specified [OF d len(1)]
      luhn_check_as_specified [OF d len] bin_check_as_specified [OF d]
      cvv_check_as_specified [of "cvv (extractCardData line)" "detectCardType (normalized_number line)"]
    by (simp add: check_order_def cleaned_number_normalized)
qed

lemma hyphenated_line:
  "reason (validateCard now (js ''4111-1111-1111-1111|13|2030|123'')) = Some ''Invalid month''"
  by code_simp

lemma short_number_line:
  "reason (validateCard now (js ''4111|12|2030|123'')) = Some ''Invalid card length''"
  by code_simp

lemma blank_number_line:
  "reason (validateCard now (js ''   |12|2030|123'')) = Some ''Missing card number''"
  by code_simp

text \<open>
  C1. \<open>validateCard\<close> runs its checks in the fixed order number present, normalized
  length in 12 to 19, (type detection), structure, Luhn, BIN range (skipped for the
  unknown type), expiration, CVV, each as the specification words it: the verdict is
  valid exactly when no check fails, and otherwise its reason is the reason of the first
  check in that order that fails. The line \<open>4111111111111111|13|2030|123\<close> is invalid
  with the reason "Invalid month", and so is the same number written with hyphens; a
  number of four digits is rejected for its length, and a number field of spaces only
  counts as missing.
\<close>

theorem validateCard_reports_first_failing_check:
  "valid (validateCard now line) =
     (find (check_fails_as_specified now line) check_order = None)
   \<and> reason (validateCard now line) =
       map_option (check_reason now line)
         (find (check_fails_as_specified now line) check_order)
   \<and> valid (validateCard now (js ''4111111111111111|13|2030|123'')) = False
   \<and> reason (validateCard now (js ''4111111111111111|13|2030|123'')) = Some ''Invalid month''
   \<and> reason (validateCard now (js ''4111-1111-1111-1111|13|2030|123'')) = Some ''Invalid month''
   \<and> reason (validateCard now (js ''4111|12|2030|123'')) = Some ''Invalid card length''
   \<and> reason (validateCard now (js ''   |12|2030|123'')) = Some ''Missing card number''"
  using validateCard_valid_iff [of now line] validateCard_reason [of now line]
    find_checks_as_specified [of now line] month_13_line [of now] hyphenated_line [of now]
    short_number_line [of now] blank_number_line [of now]
  by simp

theorem validateCard_reports_first_failing_check_witness:
  "find (check_fails_as_specified \<lparr>getFullYear = 2026, getMonth = 10\<rparr>
       (js ''4111111111111111|13|2030|12'')) check_order = Some ExpirationDate
   \<and> check_fails_as_specified \<lparr>getFullYear = 2026, getMonth = 10\<rparr>
       (js ''4111111111111111|13|2030|12'') CvvLength
   \<and> \<not> valid (validateCard \<lparr>getFullYear = 2026, getMonth = 10\<rparr>
         (js ''4111111111111111|13|2030|12''))
   \<and> reason (validateCard \<lparr>getFullYear = 2026, getMonth = 10\<rparr>
         (js ''4111111111111111|13|2030|12'')) = Some ''Invalid month''
   \<and> find (check_fails_as_specified \<lparr>getFullYear = 2026, getMonth = 10\<rparr>
       (js '' 4111-1111-1111-1111 | 12 | 2030 | 123 '')) check_order = None
   \<and> valid (validateCard \<lparr>getFullYear = 2026, getMonth = 10\<rparr>
         (js '' 4111-1111-1111-1111 | 12 | 2030 | 123 ''))"
proof -
  let ?now = "\<lparr>getFullYear = 2026, getMonth = 10\<rparr>"
  have f: "find (check_fails_as_specified ?now (js ''4111111111111111|13|2030|12''))
      check_order = Some ExpirationDate"
    by code_simp
  have c: "check_fails_as_specified ?now (js ''4111111111111111|13|2030|12'') CvvLength"
    by code_simp
  have r: "check_reason ?now (js ''4111111111111111|13|2030|12'') ExpirationDate =
      ''Invalid month''"
    by code_simp
  have g: "find (check_fails_as_specified ?now (js '' 4111-1111-1111-1111 | 12 | 2030 | 123 ''))
      check_order = None"
    by code_simp
  show ?thesis
    using f c r g
      validateCard_reports_first_failing_check [of ?now "js ''4111111111111111|13|2030|12''"]
      validateCard_reports_first_failing_check
        [of ?now "js '' 4111-1111-1111-1111 | 12 | 2030 | 123 ''"]
    by simp
qed

subsection \<open>Verdicts and their reasons\<close>

lemma validateExpiration_reason_known:
  "validateExpiration now m y = ExpInvalid why \<Longrightarrow> why \<in> set rejection_reasons \<and> why \<noteq> []"
  by (auto simp add: validateExpiration_def rejection_reasons_def Let_def
      split: if_splits option.splits)

lemma validateCard_invalid_reason:
  assumes "\<not> valid (validateCard now line)"
  shows "\<exists>why \<in> set rejection_reasons. reason (validateCard now line) = Some why \<and> why \<noteq> []"
proof (cases "validateExpiration now (month (extractCardData line)) (year (extractCardData line))")
  case (ExpInvalid why)
  from validateExpiration_reason_known [OF this] have "why \<in> set rejection_reasons" "why \<noteq> []"
    by simp_all
  moreover have "reason (validateCard now line) = Some why \<or>
      reason (validateCard now line) \<in> Some ` {''Missing card number'', ''Invalid card length'',
        ''Invalid card structure'', ''Failed Luhn check'', ''Invalid BIN/IIN''}"
    using ExpInvalid by (simp add: validateCard_def Let_def rejected_def)
  moreover have "{''Missing card number'', ''Invalid card length'',
        ''Invalid card structure'', ''Failed Luhn check'', ''Invalid BIN/IIN''} \<subseteq> set rejection_reasons - {[]}"
    by (simp add: rejection_reasons_def)
  ultimately show ?thesis by blast
next
  case (ExpValid m y)
  have "reason (validateCard now line) \<in> Some ` {''Missing card number'', ''Invalid card length'',
        ''Invalid card structure'', ''Failed Luhn check'', ''Invalid BIN/IIN'', ''Invalid CVV''}"
    using ExpValid assms by (simp add: validateCard_def Let_def rejected_def split: if_splits)
  moreover have "{''Missing card number'', ''Invalid card length'',
        ''Invalid card structure'', ''Failed Luhn check'', ''Invalid BIN/IIN'', ''Invalid CVV''}
        \<subseteq> set rejection_reasons - {[]}"
    by (simp add: rejection_reasons_def)
  ultimately show ?thesis by blast
qed

lemma validateCard_valid_fields:
  "valid (validateCard now line) \<Longrightarrow>
   reason (validateCard now line) = None \<and> card_type (validateCard now line) \<noteq> None \<and>
   expMonth (validateCard now line) \<noteq> None \<and> expYear (validateCard now line) \<noteq> None"
  by (simp add: validateCard_def Let_def rejected_def split: if_splits exp_result.splits)

text \<open>
  C8. \<open>validateCard\<close> is a total function of the line (no operation in it can throw on a
  string, and its loops are bounded by the line), and its result is a verdict: an
  invalid verdict carries one of the rejection reasons of the code, none of them empty;
  a valid verdict carries no reason and has its type, month and year.
\<close>

theorem validateCard_verdict_has_reason:
  "(\<not> valid (validateCard now line) \<longrightarrow>
      (\<exists>why \<in> set rejection_reasons. reason (validateCard now line) = Some why \<and> why \<noteq> []))
   \<and> (valid (validateCard now line) \<longrightarrow>
      reason (validateCard now line) = None \<and> card_type (validateCard now line) \<noteq> None \<and>
      expMonth (validateCard now line) \<noteq> None \<and> expYear (validateCard now line) \<noteq> None)"
  using validateCard_invalid_reason [of now line] validateCard_valid_fields [of now line]
  by blast

theorem validateCard_verdict_has_reason_witness:
  "\<not> valid (validateCard \<lparr>getFullYear = 2026, getMonth = 10\<rparr> [])
   \<and> reason (validateCard \<lparr>getFullYear = 2026, getMonth = 10\<rparr> []) \<in> Some ` set rejection_reasons
   \<and> \<not> valid (validateCard \<lparr>getFullYear = 2026, getMonth = 10\<rparr> (js ''||-1|\<newline> 4e9||''))
   \<and> reason (validateCard \<lparr>getFullYear = 2026, getMonth = 10\<rparr> (js ''||-1|\<newline> 4e9||''))
       \<in> Some ` set rejection_reasons
   \<and> valid (validateCard \<lparr>getFullYear = 2026, getMonth = 10\<rparr> (js ''4111111111111111|12|2030|123''))
   \<and> reason (validateCard \<lparr>getFullYear = 2026, getMonth = 10\<rparr>
        (js ''4111111111111111|12|2030|123'')) = None"
proof -
  let ?now = "\<lparr>getFullYear = 2026, getMonth = 10\<rparr>"
  have a: "\<not> valid (validateCard ?now [])"
    by code_simp
  have b: "\<not> valid (validateCard ?now (js ''||-1|\<newline> 4e9||''))"
    by code_simp
  have c: "valid (validateCard ?now (js ''4111111111111111|12|2030|123''))"
    by code_simp
  show ?thesis
    using a b c
      validateCard_verdict_has_reason [of ?now "[]"]
      validateCard_verdict_has_reason [of ?now "js ''||-1|\<newline> 4e9||''"]
      validateCard_verdict_has_reason [of ?now "js ''4111111111111111|12|2030|123''"]
    by auto
qed

subsection \<open>The clock\<close>

lemma validateCard_same_expiration:
  "validateExpiration now1 (month (extractCardData line)) (year (extractCardData line)) =
   validateExpiration now2 (month (extractCardData line)) (year (extractCardData line)) \<Longrightarrow>
   validateCard now1 line = validateCard now2 line"
  by (simp add: validateCard_def Let_def)

lemma validateCard_early_rejection:
  "list_ex (check_fails now1 line)
     [NumberPresent, LengthInRange, StructurePlausible, LuhnChecksum, BinRange] \<Longrightarrow>
   validateCard now1 line = validateCard now2 line"
  by (auto simp add: validateCard_def Let_def cleaned_number_def)

lemma validateExpiration_same_month:
  "getFullYear now1 = getFullYear now2 \<Longrightarrow> getMonth now1 = getMonth now2 \<Longrightarrow>
   validateExpiration now1 m y = validateExpiration now2 m y"
  by (simp add: validateExpiration_def Let_def split: option.splits)

lemma validateCard_same_month:
  assumes "getFullYear now1 = getFullYear now2 \<and> getMonth now1 = getMonth now2"
  shows "validateCard now1 line = validateCard now2 line"
  by (intro validateCard_same_expiration validateExpiration_same_month)
    (use assms in simp_all)

text \<open>
  C9, as stated, fails: \<open>validateExpiration\<close> reads the clock, so the same line gets two
  verdicts at two times. \<open>4111111111111111|12|2030|123\<close> is valid in November 2026 and
  is rejected in January 2031.
\<close>

theorem validateCard_clock_counterexample:
  "valid (validateCard \<lparr>getFullYear = 2026, getMonth = 10\<rparr> (js ''4111111111111111|12|2030|123''))
   \<and> \<not> valid (validateCard \<lparr>getFullYear = 2031, getMonth = 0\<rparr>
          (js ''4111111111111111|12|2030|123''))
   \<and> reason (validateCard \<lparr>getFullYear = 2031, getMonth = 0\<rparr>
          (js ''4111111111111111|12|2030|123'')) = Some ''Card expired''"
  by code_simp

text \<open>
  C9, amended. The verdict of \<open>validateCard\<close> is a function of the line and of the current
  calendar year and month, and of nothing else; the clock enters through the expiration
  check only. Two clocks with the same year and month give the same verdict; two clocks
  for which \<open>validateExpiration\<close> agrees on the line's month and year give the same
  verdict; and a line that fails one of the checks before the expiration check (number
  present, length, structure, Luhn, BIN range) gets the same verdict at every time.
\<close>

theorem validateCard_depends_on_line_and_month:
  "(getFullYear now1 = getFullYear now2 \<and> getMonth now1 = getMonth now2 \<longrightarrow>
      validateCard now1 line = validateCard now2 line)
   \<and> (validateExpiration now1 (month (extractCardData line)) (year (extractCardData line)) =
       validateExpiration now2 (month (extractCardData line)) (year (extractCardData line)) \<longrightarrow>
      validateCard now1 line = validateCard now2 line)
   \<and> (list_ex (check_fails now1 line)
         [NumberPresent, LengthInRange, StructurePlausible, LuhnChecksum, BinRange] \<longrightarrow>
      validateCard now1 line = validateCard now2 line)"
  using validateCard_same_month [of now1 now2 line] validateCard_same_expiration [of now1 line now2]
    validateCard_early_rejection [of now1 line now2]
  by blast

theorem validateCard_depends_on_line_and_month_witness:
  "validateCard \<lparr>getFullYear = 2026, getMonth = 10\<rparr> (js ''4111111111111111|12|2030|123'') =
     validateCard \<lparr>getFullYear = 2027, getMonth = 3\<rparr> (js ''4111111111111111|12|2030|123'')
   \<and> validateCard \<lparr>getFullYear = 2026, getMonth = 10\<rparr> (js ''4111111111111112|12|2030|123'') =
     validateCard \<lparr>getFullYear = 2031, getMonth = 0\<rparr> (js ''4111111111111112|12|2030|123'')"
proof -
  let ?a = "\<lparr>getFullYear = 2026, getMonth = 10\<rparr>"
  let ?b = "\<lparr>getFullYear = 2027, getMonth = 3\<rparr>"
  let ?c = "\<lparr>getFullYear = 2031, getMonth = 0\<rparr>"
  have e: "validateExpiration ?a (month (extractCardData (js ''4111111111111111|12|2030|123'')))
        (year (extractCardData (js ''4111111111111111|12|2030|123''))) =
      validateExpiration ?b (month (extractCardData (js ''4111111111111111|12|2030|123'')))
        (year (extractCardData (js ''4111111111111111|12|2030|123'')))"
    by code_simp
  have l: "list_ex (check_fails ?a (js ''4111111111111112|12|2030|123''))
      [NumberPresent, LengthInRange, StructurePlausible, LuhnChecksum, BinRange]"
    by code_simp
  show ?thesis
    using e l
      validateCard_depends_on_line_and_month [of ?a ?b "js ''4111111111111111|12|2030|123''"]
      validateCard_depends_on_line_and_month [of ?a ?c "js ''4111111111111112|12|2030|123''"]
    by simp
qed

subsection \<open>Runs of \<open>processBatch\<close>\<close>

lemma run_Nil: "run [] s = s"
  by (simp add: run_def)

lemma run_Cons: "run (ev # es) s = run es (step ev s)"
  by (simp add: run_def)

lemma run_snoc: "run (es @ [ev]) s = step ev (run es s)"
  by (simp add: run_def)

lemma progress_calls_append:
  "progress_calls k (xs @ ys) = progress_calls k xs @ progress_calls k ys"
  by (simp add: progress_calls_def)

lemma progress_calls_Return: "progress_calls k [Return j b] = []"
  by (simp add: progress_calls_def)

text \<open>One record that is not blank: it is counted, reported once, and the invocation waits.\<close>

lemma batch_loop_record:
  assumes "isProcessing v" and "i < length cd" and "trim (cd ! i) \<noteq> []"
    and "currentBatch v = Some b"
  shows "\<exists>b' cs. batch_loop k e cd i v = (Some i, v\<lparr>currentBatch := Some b'\<rparr>, cs) \<and>
           total b' = total b \<and> processed b' = Suc (processed b) \<and>
           progress_calls k cs = [Some b']"
  using assms
  by (subst batch_loop.simps)
    (auto simp add: Let_def count_valid_def count_processed_def update_batch_def
      progress_calls_def simulateStatus_def)

lemma batch_loop_end: "length cd \<le> i \<Longrightarrow> batch_loop k e cd i v = finish k v"
  by (subst batch_loop.simps) simp

text \<open>
  The state after the call and \<open>j\<close> timers, for a batch without blank lines that nobody
  stops: record \<open>j\<close> has just been handled.
\<close>

lemma run_uninterrupted_prefix:
  assumes idle: "\<not> isProcessing (this s)"
    and nonblank: "\<forall>line \<in> set cd. trim line \<noteq> []"
    and j: "j < length cd" "j \<le> length es"
  shows "\<exists>b cs. this (run (ProcessBatch cd e # map (TimerFires (length (tasks s))) (take j es)) s) =
             \<lparr>isProcessing = True, currentBatch = Some b\<rparr> \<and>
           total b = length cd \<and> processed b = Suc j \<and>
           tasks (run (ProcessBatch cd e # map (TimerFires (length (tasks s))) (take j es)) s) =
             tasks s @ [Suspended cd j] \<and>
           calls (run (ProcessBatch cd e # map (TimerFires (length (tasks s))) (take j es)) s) =
             calls s @ cs \<and>
           map (map_option processed) (progress_calls (length (tasks s)) cs) =
             map Some [1..<Suc (Suc j)] \<and>
           map (map_option total) (progress_calls (length (tasks s)) cs) =
             replicate (Suc j) (Some (length cd))"
  using j
proof (induction j)
  case 0
  let ?k = "length (tasks s)"
  have nb: "trim (cd ! 0) \<noteq> []"
    using nonblank 0(1) by simp
  obtain b' cs where
    l: "batch_loop ?k e cd 0 (new_batch cd) = (Some 0, (new_batch cd)\<lparr>currentBatch := Some b'\<rparr>, cs)"
    and b': "total b' = length cd" "processed b' = Suc 0" "progress_calls ?k cs = [Some b']"
    using batch_loop_record [of "new_batch cd" 0 cd _ ?k e, OF _ 0(1) nb]
    by (auto simp add: new_batch_def)
  show ?case
    using idle l b'
    by (simp add: run_Cons run_Nil settle_def new_batch_def)
next
  case (Suc j)
  let ?k = "length (tasks s)"
  let ?s = "run (ProcessBatch cd e # map (TimerFires ?k) (take j es)) s"
  from Suc obtain b cs where
    st: "this ?s = \<lparr>isProcessing = True, currentBatch = Some b\<rparr>"
    and b: "total b = length cd" "processed b = Suc j"
    and ts: "tasks ?s = tasks s @ [Suspended cd j]"
    and cl: "calls ?s = calls s @ cs"
    and pr: "map (map_option processed) (progress_calls ?k cs) = map Some [1..<Suc (Suc j)]"
    and tt: "map (map_option total) (progress_calls ?k cs) = replicate (Suc j) (Some (length cd))"
    by auto
  have tk: "take (Suc j) es = take j es @ [es ! j]"
    using Suc.prems by (simp add: take_Suc_conv_app_nth)
  have nb: "trim (cd ! Suc j) \<noteq> []"
    using nonblank Suc.prems by simp
  obtain b' cs' where
    l: "batch_loop ?k (es ! j) cd (Suc j) (this ?s) =
          (Some (Suc j), (this ?s)\<lparr>currentBatch := Some b'\<rparr>, cs')"
    and b': "total b' = total b" "processed b' = Suc (processed b)"
      "progress_calls ?k cs' = [Some b']"
    using batch_loop_record [of "this ?s" "Suc j" cd b ?k "es ! j"] Suc.prems(1) nb st
    by auto
  have run: "run (ProcessBatch cd e # map (TimerFires ?k) (take (Suc j) es)) s =
      step (TimerFires ?k (es ! j)) ?s"
    by (simp add: tk run_snoc [symmetric])
  have stp: "step (TimerFires ?k (es ! j)) ?s =
      ?s\<lparr>this := (this ?s)\<lparr>currentBatch := Some b'\<rparr>,
         tasks := tasks s @ [Suspended cd (Suc j)],
         calls := calls s @ cs @ cs'\<rparr>"
    using l ts cl by (simp add: settle_def)
  show ?case
    unfolding run stp
    using st b b' pr tt
    by (simp add: progress_calls_append replicate_append_same)
qed

lemma run_uninterrupted:
  assumes idle: "\<not> isProcessing (this s)"
    and nonblank: "\<forall>line \<in> set cd. trim line \<noteq> []"
    and len: "length es = length cd"
  shows "\<exists>b cs. this (run (ProcessBatch cd e # map (TimerFires (length (tasks s))) es) s) =
             \<lparr>isProcessing = False, currentBatch = Some b\<rparr> \<and>
           total b = length cd \<and> processed b = length cd \<and>
           tasks (run (ProcessBatch cd e # map (TimerFires (length (tasks s))) es) s) =
             tasks s @ [Finished] \<and>
           calls (run (ProcessBatch cd e # map (TimerFires (length (tasks s))) es) s) =
             calls s @ cs @ [Return (length (tasks s)) (Some b)] \<and>
           map (map_option processed) (progress_calls (length (tasks s)) cs) =
             map Some [1..<Suc (length cd)] \<and>
           map (map_option total) (progress_calls (length (tasks s)) cs) =
             replicate (length cd) (Some (length cd))"
proof (cases "length cd")
  case 0
  then have "cd = []" "es = []" using len by simp_all
  then show ?thesis
    using idle
    by (simp add: run_Cons run_Nil settle_def batch_loop_end finish_def new_batch_def
        progress_calls_def)
next
  case (Suc j)
  let ?k = "length (tasks s)"
  let ?s = "run (ProcessBatch cd e # map (TimerFires ?k) (take j es)) s"
  have j: "j < length cd" "j \<le> length es"
    using Suc len by simp_all
  from run_uninterrupted_prefix [OF idle nonblank j, of e] obtain b cs where
    st: "this ?s = \<lparr>isProcessing = True, currentBatch = Some b\<rparr>"
    and b: "total b = length cd" "processed b = Suc j"
    and ts: "tasks ?s = tasks s @ [Suspended cd j]"
    and cl: "calls ?s = calls s @ cs"
    and pr: "map (map_option processed) (progress_calls ?k cs) = map Some [1..<Suc (Suc j)]"
    and tt: "map (map_option total) (progress_calls ?k cs) = replicate (Suc j) (Some (length cd))"
    by auto
  have es: "es = take j es @ [es ! j]"
    using Suc len by (metis lessI take_Suc_conv_app_nth take_all order_refl)
  have run: "run (ProcessBatch cd e # map (TimerFires ?k) es) s = step (TimerFires ?k (es ! j)) ?s"
    by (subst es) (simp add: run_snoc [symmetric])
  have stp: "step (TimerFires ?k (es ! j)) ?s =
      ?s\<lparr>this := \<lparr>isProcessing = False, currentBatch = Some b\<rparr>,
         tasks := tasks s @ [Finished],
         calls := calls s @ cs @ [Return ?k (Some b)]\<rparr>"
    using st ts cl Suc by (simp add: settle_def batch_loop_end finish_def)
  show ?thesis
    unfolding run stp using b pr tt Suc by simp
qed

text \<open>
  When a batch of \<open>N\<close> lines, none of them blank or white space only, is started on a
  validator that is not processing, and nothing happens but its own \<open>N\<close> timers firing
  (no stop, and no other invocation resuming), its progress callback is called exactly
  \<open>N\<close> times, once after each record: the \<open>processed\<close> fields it sees are \<open>1, 2, ..., N\<close>
  and the \<open>total\<close> field is \<open>N\<close> each time; the invocation then returns the batch, with
  \<open>processed = N\<close>.
\<close>

lemma processBatch_progress_after_each_record:
  assumes "\<not> isProcessing (this s)"
    and "\<forall>line \<in> set cardsData. trim line \<noteq> []"
    and "length es = length cardsData"
  shows "let k = length (tasks s);
             s' = run (ProcessBatch cardsData e # map (TimerFires k) es) s;
             new = drop (length (calls s)) (calls s');
             ps = progress_calls k new
         in length ps = length cardsData \<and>
            map (map_option processed) ps = map Some [1..<Suc (length cardsData)] \<and>
            map (map_option total) ps = replicate (length cardsData) (Some (length cardsData)) \<and>
            tasks s' ! k = Finished \<and>
            \<not> isProcessing (this s') \<and>
            last new = Return k (currentBatch (this s')) \<and>
            map_option processed (currentBatch (this s')) = Some (length cardsData)"
proof -
  let ?k = "length (tasks s)"
  let ?s = "run (ProcessBatch cardsData e # map (TimerFires ?k) es) s"
  from run_uninterrupted [OF assms, of e] obtain b cs where
    st: "this ?s = \<lparr>isProcessing = False, currentBatch = Some b\<rparr>"
    and b: "total b = length cardsData" "processed b = length cardsData"
    and ts: "tasks ?s = tasks s @ [Finished]"
    and cl: "calls ?s = calls s @ cs @ [Return ?k (Some b)]"
    and pr: "map (map_option processed) (progress_calls ?k cs) =
        map Some [1..<Suc (length cardsData)]"
    and tt: "map (map_option total) (progress_calls ?k cs) =
        replicate (length cardsData) (Some (length cardsData))"
    by auto
  have new: "drop (length (calls s)) (calls ?s) = cs @ [Return ?k (Some b)]"
    by (simp add: cl)
  have ps: "progress_calls ?k (cs @ [Return ?k (Some b)]) = progress_calls ?k cs"
    by (simp add: progress_calls_append progress_calls_Return)
  have len: "length (progress_calls ?k cs) = length cardsData"
    using arg_cong [OF tt, of length] by simp
  show ?thesis
    unfolding Let_def new ps
    using st b ts pr tt len by simp
qed

lemma processBatch_progress_example:
  "\<not> isProcessing (this initial)
   \<and> list_all (\<lambda>line. trim line \<noteq> []) [js ''x'', js ''4111111111111111|12|2030|123'']
   \<and> map (map_option processed)
       (progress_calls 0
         (calls (run [ProcessBatch [js ''x'', js ''4111111111111111|12|2030|123'']
                        \<lparr>clock = \<lparr>getFullYear = 2026, getMonth = 10\<rparr>, random_below = False\<rparr>,
                      TimerFires 0 \<lparr>clock = \<lparr>getFullYear = 2026, getMonth = 10\<rparr>, random_below = True\<rparr>,
                      TimerFires 0 \<lparr>clock = \<lparr>getFullYear = 2026, getMonth = 10\<rparr>, random_below = False\<rparr>]
                 initial))) = [Some 1, Some 2]"
proof -
  let ?cd = "[js ''x'', js ''4111111111111111|12|2030|123'']"
  let ?e = "\<lparr>clock = \<lparr>getFullYear = 2026, getMonth = 10\<rparr>, random_below = False\<rparr>"
  let ?es = "[\<lparr>clock = \<lparr>getFullYear = 2026, getMonth = 10\<rparr>, random_below = True\<rparr>, ?e]"
  have a: "\<not> isProcessing (this initial)"
    by (simp add: initial_def)
  have b: "\<forall>line \<in> set ?cd. trim line \<noteq> []"
    by code_simp
  have c: "length ?es = length ?cd"
    by simp
  have b': "list_all (\<lambda>line. trim line \<noteq> []) ?cd"
    using b by (simp add: list_all_iff)
  show ?thesis
    using a b' processBatch_progress_after_each_record [OF a b c, of ?e]
    by (simp add: Let_def initial_def upt_rec)
qed

subsection \<open>A call while a batch is running\<close>

lemma step_earlier_event:
  assumes "this s1 = this s2" and "take n (tasks s1) = take n (tasks s2)"
    and "n \<le> length (tasks s1)" and "n \<le> length (tasks s2)" and "earlier_event n ev"
  shows "this (step ev s1) = this (step ev s2) \<and>
         take n (tasks (step ev s1)) = take n (tasks (step ev s2)) \<and>
         n \<le> length (tasks (step ev s1)) \<and> n \<le> length (tasks (step ev s2)) \<and>
         (\<exists>cs. calls (step ev s1) = calls s1 @ cs \<and> calls (step ev s2) = calls s2 @ cs)"
proof (cases ev)
  case (ProcessBatch cd e)
  with assms(5) show ?thesis by (simp add: earlier_event_def)
next
  case StopProcessing
  with assms show ?thesis by simp
next
  case (TimerFires k e)
  with assms(5) have k: "k < n" by (simp add: earlier_event_def)
  have same: "tasks s1 ! k = tasks s2 ! k"
    using k assms(2) by (metis nth_take)
  show ?thesis
  proof (cases "tasks s2 ! k")
    case Finished
    with same TimerFires k assms show ?thesis by simp
  next
    case (Suspended cd i)
    obtain r v cs where l: "batch_loop k e cd (Suc i) (this s2) = (r, v, cs)"
      by (cases "batch_loop k e cd (Suc i) (this s2)")
    show ?thesis
      using Suspended same TimerFires k assms l
      by (simp add: settle_def take_update_swap)
  qed
qed

lemma run_earlier_events:
  assumes "list_all (earlier_event n) es"
    and "this s1 = this s2" and "take n (tasks s1) = take n (tasks s2)"
    and "n \<le> length (tasks s1)" and "n \<le> length (tasks s2)"
  shows "this (run es s1) = this (run es s2) \<and>
         (\<exists>cs. calls (run es s1) = calls s1 @ cs \<and> calls (run es s2) = calls s2 @ cs)"
  using assms
proof (induction es arbitrary: s1 s2)
  case Nil
  then show ?case by (simp add: run_Nil)
next
  case (Cons ev es)
  from Cons.prems have ev: "earlier_event n ev" and es: "list_all (earlier_event n) es"
    by simp_all
  from step_earlier_event [OF Cons.prems(2-5) ev] obtain cs where
    s: "this (step ev s1) = this (step ev s2)"
       "take n (tasks (step ev s1)) = take n (tasks (step ev s2))"
       "n \<le> length (tasks (step ev s1))" "n \<le> length (tasks (step ev s2))"
    and c: "calls (step ev s1) = calls s1 @ cs" "calls (step ev s2) = calls s2 @ cs"
    by auto
  from Cons.IH [OF es s] obtain cs' where
    "this (run es (step ev s1)) = this (run es (step ev s2))"
    "calls (run es (step ev s1)) = calls (step ev s1) @ cs'"
    "calls (run es (step ev s2)) = calls (step ev s2) @ cs'"
    by auto
  with c show ?case by (simp add: run_Cons)
qed

text \<open>
  C6. A call of \<open>processBatch\<close> while \<open>isProcessing\<close> is true is a no-op that returns
  \<open>null\<close>: the validator, and with it the batch in flight, is left as it was, no
  callback is called, and the only trace of the call is the returned \<open>null\<close>. Whatever
  the invocations already in flight and \<open>stopProcessing\<close> do afterwards, the validator's
  state, counters included, is what it would have been without the rejected call, and
  the same calls are made to the outside.
\<close>

theorem processBatch_rejected_while_processing:
  assumes "isProcessing (this s)"
  shows "this (step (ProcessBatch cardsData e) s) = this s
    \<and> tasks (step (ProcessBatch cardsData e) s) = tasks s @ [Finished]
    \<and> calls (step (ProcessBatch cardsData e) s) = calls s @ [Return (length (tasks s)) None]
    \<and> (list_all (earlier_event (length (tasks s))) es \<longrightarrow>
         this (run es (step (ProcessBatch cardsData e) s)) = this (run es s) \<and>
         drop (Suc (length (calls s))) (calls (run es (step (ProcessBatch cardsData e) s))) =
           drop (length (calls s)) (calls (run es s)))"
proof -
  define s' where "s' = step (ProcessBatch cardsData e) s"
  have a: "this s' = this s" "tasks s' = tasks s @ [Finished]"
    "calls s' = calls s @ [Return (length (tasks s)) None]"
    using assms by (simp_all add: s'_def)
  have b: "this (run es s') = this (run es s) \<and>
      drop (Suc (length (calls s))) (calls (run es s')) = drop (length (calls s)) (calls (run es s))"
    if ev: "list_all (earlier_event (length (tasks s))) es"
  proof -
    have "this (run es s') = this (run es s) \<and>
        (\<exists>cs. calls (run es s') = calls s' @ cs \<and> calls (run es s) = calls s @ cs)"
      by (rule run_earlier_events [OF ev]) (simp_all add: a)
    then obtain cs where
      "this (run es s') = this (run es s)"
      "calls (run es s') = calls s' @ cs" "calls (run es s) = calls s @ cs"
      by blast
    then show ?thesis by (simp add: a)
  qed
  from a b show ?thesis
    unfolding s'_def by blast
qed

theorem processBatch_rejected_while_processing_witness:
  "isProcessing (this (run [ProcessBatch [js ''x'', js ''y'']
        \<lparr>clock = \<lparr>getFullYear = 2026, getMonth = 10\<rparr>, random_below = False\<rparr>] initial))
   \<and> currentBatch (this (run
        [ProcessBatch [js ''x'', js ''y'']
           \<lparr>clock = \<lparr>getFullYear = 2026, getMonth = 10\<rparr>, random_below = False\<rparr>,
         ProcessBatch [js ''z'']
           \<lparr>clock = \<lparr>getFullYear = 2026, getMonth = 10\<rparr>, random_below = False\<rparr>,
         TimerFires 0 \<lparr>clock = \<lparr>getFullYear = 2026, getMonth = 10\<rparr>, random_below = False\<rparr>]
        initial)) =
     Some \<lparr>total = 2, processed = 2, valid_cards = 0, live = 0, dead = 0\<rparr>"
proof -
  let ?e = "\<lparr>clock = \<lparr>getFullYear = 2026, getMonth = 10\<rparr>, random_below = False\<rparr>"
  let ?s = "run [ProcessBatch [js ''x'', js ''y''] ?e] initial"
  have a: "isProcessing (this ?s)"
    by code_simp
  have b: "list_all (earlier_event (length (tasks ?s))) [TimerFires 0 ?e]"
    by code_simp
  have c: "currentBatch (this (run [TimerFires 0 ?e] ?s)) =
      Some \<lparr>total = 2, processed = 2, valid_cards = 0, live = 0, dead = 0\<rparr>"
    by code_simp
  have d: "run [ProcessBatch [js ''x'', js ''y''] ?e, ProcessBatch [js ''z''] ?e, TimerFires 0 ?e] initial =
      run [TimerFires 0 ?e] (step (ProcessBatch [js ''z''] ?e) ?s)"
    by (simp add: run_def)
  show ?thesis
    using a b c processBatch_rejected_while_processing [OF a, of "[js ''z'']" ?e "[TimerFires 0 ?e]"]
    unfolding d by simp
qed

subsection \<open>One invocation alone\<close>

text \<open>
  The loop itself keeps the counters consistent: entered at index \<open>i\<close> with a consistent
  batch of \<open>total = cardsData.length\<close> and \<open>processed = i\<close>, it leaves such a batch, with
  \<open>processed\<close> one more than the index of the record it waits after, and shows only
  consistent counters.
\<close>

lemma batch_loop_consistent:
  assumes "currentBatch v = Some b" and "counters_consistent b"
    and "total b = length cd" and "processed b = i"
  shows "\<exists>r v' cs b'. batch_loop k e cd i v = (r, v', cs) \<and>
           currentBatch v' = Some b' \<and> counters_consistent b' \<and> total b' = length cd \<and>
           (case r of Some i' \<Rightarrow> i' < length cd \<and> processed b' = Suc i' | None \<Rightarrow> True) \<and>
           list_all consistent_call cs"
  using assms
proof (induction k e cd i v arbitrary: b rule: batch_loop.induct)
  case (1 k e cd i v)
  show ?case
  proof (cases "i < length cd \<and> isProcessing v")
    case False
    then have "batch_loop k e cd i v = finish k v"
      by (subst batch_loop.simps) auto
    with 1(2-4) show ?thesis
      by (simp add: finish_def consistent_call_def)
  next
    case True
    show ?thesis
    proof (cases "trim (cd ! i) = []")
      case blank: True
      have l: "batch_loop k e cd i v = batch_loop k e cd (Suc i) (count_processed v)"
        using True blank by (subst batch_loop.simps) simp
      have "\<exists>r v' cs b'. batch_loop k e cd (Suc i) (count_processed v) = (r, v', cs) \<and>
           currentBatch v' = Some b' \<and> counters_consistent b' \<and> total b' = length cd \<and>
           (case r of Some i' \<Rightarrow> i' < length cd \<and> processed b' = Suc i' | None \<Rightarrow> True) \<and>
           list_all consistent_call cs"
        using True blank 1(2-5)
        by (intro 1(1) [of _ "b\<lparr>processed := Suc (processed b)\<rparr>"])
          (auto simp add: count_processed_def update_batch_def counters_consistent_def)
      then show ?thesis by (simp add: l)
    next
      case False
      with True 1(2-5) show ?thesis
        by (subst batch_loop.simps)
          (auto simp add: Let_def count_valid_def count_processed_def update_batch_def
            counters_consistent_def consistent_call_def simulateStatus_def)
    qed
  qed
qed


lemma step_lone_invocation:
  assumes inv: "lone_invocation k cd s" and ev: "earlier_event (Suc k) ev"
  shows "lone_invocation k cd (step ev s) \<and>
         (\<exists>cs. calls (step ev s) = calls s @ cs \<and> list_all consistent_call cs)"
proof (cases ev)
  case (ProcessBatch cd' e)
  with ev show ?thesis by (simp add: earlier_event_def)
next
  case StopProcessing
  with inv show ?thesis by (auto simp add: lone_invocation_def split: option.splits)
next
  case (TimerFires j e)
  with ev have j: "j \<le> k" by (simp add: earlier_event_def)
  from inv obtain b where
    len: "length (tasks s) = Suc k"
    and fin: "list_all (\<lambda>t. t = Finished) (take k (tasks s))"
    and b: "currentBatch (this s) = Some b" "counters_consistent b" "total b = length cd"
    and tk: "case tasks s ! k of
               Suspended cd' i \<Rightarrow> cd' = cd \<and> i < length cd \<and> processed b = Suc i
             | Finished \<Rightarrow> True"
    by (auto simp add: lone_invocation_def split: option.splits)
  show ?thesis
  proof (cases "j < k")
    case True
    then have "tasks s ! j = Finished"
      using fin len by (auto simp add: list_all_length)
    with TimerFires inv show ?thesis by (simp add: len)
  next
    case False
    with j have jk: "j = k" by simp
    show ?thesis
    proof (cases "tasks s ! k")
      case Finished
      with TimerFires jk inv show ?thesis by (simp add: len)
    next
      case (Suspended cd' i)
      with tk have i: "cd' = cd" "i < length cd" "processed b = Suc i" by simp_all
      from batch_loop_consistent [OF b i(3), of k e] obtain r v' cs b' where
        l: "batch_loop k e cd (Suc i) (this s) = (r, v', cs)"
        and b': "currentBatch v' = Some b'" "counters_consistent b'" "total b' = length cd"
          "case r of Some i' \<Rightarrow> i' < length cd \<and> processed b' = Suc i' | None \<Rightarrow> True"
        and cs: "list_all consistent_call cs"
        by blast
      have stp: "step ev s =
          s\<lparr>this := v',
            tasks := (tasks s)[k := (case r of Some i \<Rightarrow> Suspended cd i | None \<Rightarrow> Finished)],
            calls := calls s @ cs\<rparr>"
        using TimerFires jk Suspended i(1) l len by (simp add: settle_def)
      show ?thesis
        unfolding stp using b' cs fin len
        by (auto simp add: lone_invocation_def split: option.splits)
    qed
  qed
qed

lemma run_lone_invocation:
  assumes "lone_invocation k cd s" and "list_all (earlier_event (Suc k)) es"
  shows "lone_invocation k cd (run es s) \<and>
         (\<exists>cs. calls (run es s) = calls s @ cs \<and> list_all consistent_call cs)"
  using assms
proof (induction es arbitrary: s)
  case Nil
  then show ?case by (simp add: run_Nil)
next
  case (Cons ev es)
  from Cons.prems have ev: "earlier_event (Suc k) ev" and es: "list_all (earlier_event (Suc k)) es"
    by simp_all
  from step_lone_invocation [OF Cons.prems(1) ev] obtain cs where
    s: "lone_invocation k cd (step ev s)"
    and c: "calls (step ev s) = calls s @ cs" "list_all consistent_call cs"
    by blast
  from Cons.IH [OF s es] obtain cs' where
    "lone_invocation k cd (run es (step ev s))"
    "calls (run es (step ev s)) = calls (step ev s) @ cs'" "list_all consistent_call cs'"
    by blast
  with c show ?case by (simp add: run_Cons)
qed

lemma start_lone_invocation:
  assumes "\<not> isProcessing (this s)" and "list_all (\<lambda>t. t = Finished) (tasks s)"
  shows "lone_invocation (length (tasks s)) cd (step (ProcessBatch cd e) s) \<and>
         (\<exists>cs. calls (step (ProcessBatch cd e) s) = calls s @ cs \<and> list_all consistent_call cs)"
proof -
  let ?k = "length (tasks s)"
  let ?b = "\<lparr>total = length cd, processed = 0, valid_cards = 0, live = 0, dead = 0\<rparr>"
  have "\<exists>r v' cs b'. batch_loop ?k e cd 0 (new_batch cd) = (r, v', cs) \<and>
           currentBatch v' = Some b' \<and> counters_consistent b' \<and> total b' = length cd \<and>
           (case r of Some i' \<Rightarrow> i' < length cd \<and> processed b' = Suc i' | None \<Rightarrow> True) \<and>
           list_all consistent_call cs"
    by (rule batch_loop_consistent [of _ ?b])
      (simp_all add: new_batch_def counters_consistent_def)
  then obtain r v' cs b' where
    l: "batch_loop ?k e cd 0 (new_batch cd) = (r, v', cs)"
    and b': "currentBatch v' = Some b'" "counters_consistent b'" "total b' = length cd"
      "case r of Some i' \<Rightarrow> i' < length cd \<and> processed b' = Suc i' | None \<Rightarrow> True"
    and cs: "list_all consistent_call cs"
    by blast
  have stp: "step (ProcessBatch cd e) s =
      s\<lparr>this := v',
        tasks := tasks s @ [case r of Some i \<Rightarrow> Suspended cd i | None \<Rightarrow> Finished],
        calls := calls s @ cs\<rparr>"
    using assms(1) l by (simp add: settle_def)
  show ?thesis
    unfolding stp using b' cs assms(2)
    by (auto simp add: lone_invocation_def split: option.splits)
qed

text \<open>
  Started on a validator with no invocation in flight and followed by no other call of
  \<open>processBatch\<close>, an invocation keeps the counters consistent whenever \<open>stopProcessing\<close>
  is called and its timers fire: every progress callback and the return show
  consistent counters, and so does the batch left in the validator.
\<close>

lemma processBatch_alone_consistent:
  assumes "\<not> isProcessing (this s)" and "list_all (\<lambda>t. t = Finished) (tasks s)"
    and "list_all (earlier_event (Suc (length (tasks s)))) es"
  shows "list_all consistent_call
           (drop (length (calls s)) (calls (run (ProcessBatch cd e # es) s))) \<and>
         (case currentBatch (this (run (ProcessBatch cd e # es) s)) of
            Some b \<Rightarrow> counters_consistent b
          | None \<Rightarrow> False)"
proof -
  from start_lone_invocation [OF assms(1,2), of cd e] obtain cs where
    s: "lone_invocation (length (tasks s)) cd (step (ProcessBatch cd e) s)"
    and c: "calls (step (ProcessBatch cd e) s) = calls s @ cs" "list_all consistent_call cs"
    by blast
  from run_lone_invocation [OF s assms(3)] obtain cs' where
    r: "lone_invocation (length (tasks s)) cd (run es (step (ProcessBatch cd e) s))"
    and c': "calls (run es (step (ProcessBatch cd e) s)) = calls (step (ProcessBatch cd e) s) @ cs'"
      "list_all consistent_call cs'"
    by blast
  from r have "case currentBatch (this (run es (step (ProcessBatch cd e) s))) of
      Some b \<Rightarrow> counters_consistent b | None \<Rightarrow> False"
    by (auto simp add: lone_invocation_def split: option.splits)
  with c c' show ?thesis
    by (simp add: run_Cons)
qed

subsection \<open>Overlapping invocations\<close>

text \<open>
  C10 does not hold of the code. \<open>stopProcessing\<close> clears \<open>isProcessing\<close> at once, while the
  stopped invocation is still waiting for its timer; a call of \<open>processBatch\<close> in that
  window passes the guard, replaces \<open>this.currentBatch\<close> and sets \<open>isProcessing\<close> again, and
  the stopped invocation, when its timer fires, finds \<open>isProcessing\<close> true and goes on
  counting its own records into the new batch (an invocation alone keeps the counters
  consistent, as shown above; the guard is what fails). Here a batch of two lines is stopped
  after its first record, a batch of one line is started, and the timer of the first
  invocation fires: its progress callback sees \<open>processed = 2\<close> with \<open>total = 1\<close>.
\<close>

theorem processBatch_overlap_breaks_counters:
  "currentBatch (this (run
      [ProcessBatch [js ''4111111111111111|12|2030|123'', js ''5555555555554444|12|2030|123'']
         \<lparr>clock = \<lparr>getFullYear = 2026, getMonth = 10\<rparr>, random_below = False\<rparr>,
       StopProcessing,
       ProcessBatch [js ''378282246310005|12|2030|1234'']
         \<lparr>clock = \<lparr>getFullYear = 2026, getMonth = 10\<rparr>, random_below = False\<rparr>,
       TimerFires 0 \<lparr>clock = \<lparr>getFullYear = 2026, getMonth = 10\<rparr>, random_below = False\<rparr>]
      initial)) =
     Some \<lparr>total = 1, processed = 2, valid_cards = 2, live = 0, dead = 2\<rparr>
   \<and> last (calls (run
      [ProcessBatch [js ''4111111111111111|12|2030|123'', js ''5555555555554444|12|2030|123'']
         \<lparr>clock = \<lparr>getFullYear = 2026, getMonth = 10\<rparr>, random_below = False\<rparr>,
       StopProcessing,
       ProcessBatch [js ''378282246310005|12|2030|1234'']
         \<lparr>clock = \<lparr>getFullYear = 2026, getMonth = 10\<rparr>, random_below = False\<rparr>,
       TimerFires 0 \<lparr>clock = \<lparr>getFullYear = 2026, getMonth = 10\<rparr>, random_below = False\<rparr>]
      initial)) =
     ProgressCallback 0 (Some \<lparr>total = 1, processed = 2, valid_cards = 2, live = 0, dead = 2\<rparr>)
   \<and> \<not> counters_consistent \<lparr>total = 1, processed = 2, valid_cards = 2, live = 0, dead = 2\<rparr>"
  by code_simp

text \<open>
  C5 does not hold of the code either, by the same defect. A batch of two lines is
  stopped after its first record; a batch of three lines, none of them blank, is started
  while the stopped invocation still waits, and the timers fire in the order they were
  set. The stopped invocation counts its second record into the new batch and then
  leaves the loop, clearing \<open>isProcessing\<close>; the new invocation finds the flag cleared
  before its third record. Its progress callback is called twice, not three times, and
  sees \<open>processed = 1\<close> and then \<open>processed = 3\<close>.
\<close>

theorem processBatch_stale_invocation_skips_progress:
  "progress_calls 1 (calls (run
      [ProcessBatch [js ''4111111111111111|12|2030|123'', js ''5555555555554444|12|2030|123'']
         \<lparr>clock = \<lparr>getFullYear = 2026, getMonth = 10\<rparr>, random_below = False\<rparr>,
       StopProcessing,
       ProcessBatch [js ''378282246310005|12|2030|1234'', js ''6011111111111117|12|2030|123'',
                     js ''4111111111111111|12|2030|123'']
         \<lparr>clock = \<lparr>getFullYear = 2026, getMonth = 10\<rparr>, random_below = False\<rparr>,
       TimerFires 0 \<lparr>clock = \<lparr>getFullYear = 2026, getMonth = 10\<rparr>, random_below = False\<rparr>,
       TimerFires 1 \<lparr>clock = \<lparr>getFullYear = 2026, getMonth = 10\<rparr>, random_below = False\<rparr>,
       TimerFires 0 \<lparr>clock = \<lparr>getFullYear = 2026, getMonth = 10\<rparr>, random_below = False\<rparr>,
       TimerFires 1 \<lparr>clock = \<lparr>getFullYear = 2026, getMonth = 10\<rparr>, random_below = False\<rparr>]
      initial)) =
     [Some \<lparr>total = 3, processed = 1, valid_cards = 1, live = 0, dead = 1\<rparr>,
      Some \<lparr>total = 3, processed = 3, valid_cards = 3, live = 0, dead = 3\<rparr>]
   \<and> tasks (run
      [ProcessBatch [js ''4111111111111111|12|2030|123'', js ''5555555555554444|12|2030|123'']
         \<lparr>clock = \<lparr>getFullYear = 2026, getMonth = 10\<rparr>, random_below = False\<rparr>,
       StopProcessing,
       ProcessBatch [js ''378282246310005|12|2030|1234'', js ''6011111111111117|12|2030|123'',
                     js ''4111111111111111|12|2030|123'']
         \<lparr>clock = \<lparr>getFullYear = 2026, getMonth = 10\<rparr>, random_below = False\<rparr>,
       TimerFires 0 \<lparr>clock = \<lparr>getFullYear = 2026, getMonth = 10\<rparr>, random_below = False\<rparr>,
       TimerFires 1 \<lparr>clock = \<lparr>getFullYear = 2026, getMonth = 10\<rparr>, random_below = False\<rparr>,
       TimerFires 0 \<lparr>clock = \<lparr>getFullYear = 2026, getMonth = 10\<rparr>, random_below = False\<rparr>,
       TimerFires 1 \<lparr>clock = \<lparr>getFullYear = 2026, getMonth = 10\<rparr>, random_below = False\<rparr>]
      initial) = [Finished, Finished]
   \<and> list_all (\<lambda>line. trim line \<noteq> [])
       [js ''378282246310005|12|2030|1234'', js ''6011111111111117|12|2030|123'',
        js ''4111111111111111|12|2030|123'']"
  by code_simp

end
